theory Spec2Isabelle
  imports Complex_Main "HOL-Library.Multiset"
begin

section \<open>JavaScript numbers\<close>

text \<open>
  The statistics of \<^verbatim>\<open>src/src/App.tsx\<close> compute on JavaScript numbers. A number is
  modelled as a real number or one of the three special values \<open>Infinity\<close>,
  \<open>-Infinity\<close> and \<open>NaN\<close>. The operations follow IEEE 754 on the special values
  and are exact on the reals: a finite result is not rounded and does not overflow or
  underflow. What is proved below is therefore either a statement about which formula
  the code computes, or one that does not depend on the rounding: the special values
  that arise from \<open>0 / 0\<close> on exactly representable data, the comparisons that select
  a branch or a step of a ladder, the sign of a square, integer and half-integer ranks.
  A zero has no sign; every zero divisor of the code is a length, a square root or a sum
  of squares, hence \<open>+0\<close>, and division by zero is written out for that case.
\<close>

datatype num = Fin real | PInf | NInf | NaN

fun nneg :: "num \<Rightarrow> num" where
  "nneg (Fin a) = Fin (- a)"
| "nneg PInf = NInf"
| "nneg NInf = PInf"
| "nneg NaN = NaN"

fun nadd :: "num \<Rightarrow> num \<Rightarrow> num" where
  "nadd (Fin a) (Fin b) = Fin (a + b)"
| "nadd NaN _ = NaN"
| "nadd _ NaN = NaN"
| "nadd PInf NInf = NaN"
| "nadd NInf PInf = NaN"
| "nadd PInf _ = PInf"
| "nadd _ PInf = PInf"
| "nadd NInf _ = NInf"
| "nadd _ NInf = NInf"

definition nsub :: "num \<Rightarrow> num \<Rightarrow> num" where
  "nsub a b = nadd a (nneg b)"

fun nmul :: "num \<Rightarrow> num \<Rightarrow> num" where
  "nmul (Fin a) (Fin b) = Fin (a * b)"
| "nmul NaN _ = NaN"
| "nmul _ NaN = NaN"
| "nmul PInf (Fin b) = (if b > 0 then PInf else if b < 0 then NInf else NaN)"
| "nmul NInf (Fin b) = (if b > 0 then NInf else if b < 0 then PInf else NaN)"
| "nmul (Fin a) PInf = (if a > 0 then PInf else if a < 0 then NInf else NaN)"
| "nmul (Fin a) NInf = (if a > 0 then NInf else if a < 0 then PInf else NaN)"
| "nmul PInf PInf = PInf"
| "nmul NInf NInf = PInf"
| "nmul PInf NInf = NInf"
| "nmul NInf PInf = NInf"

fun ndiv :: "num \<Rightarrow> num \<Rightarrow> num" where
  "ndiv (Fin a) (Fin b) =
     (if b \<noteq> 0 then Fin (a / b)
      else if a = 0 then NaN else if a > 0 then PInf else NInf)"
| "ndiv NaN _ = NaN"
| "ndiv _ NaN = NaN"
| "ndiv (Fin a) PInf = Fin 0"
| "ndiv (Fin a) NInf = Fin 0"
| "ndiv PInf (Fin b) = (if b \<ge> 0 then PInf else NInf)"
| "ndiv NInf (Fin b) = (if b \<ge> 0 then NInf else PInf)"
| "ndiv PInf _ = NaN"
| "ndiv NInf _ = NaN"

text \<open>\<^verbatim>\<open>x ** 2\<close>\<close>

definition npow2 :: "num \<Rightarrow> num" where
  "npow2 x = nmul x x"

text \<open>\<^verbatim>\<open>Math.sqrt\<close>, \<^verbatim>\<open>Math.abs\<close>, \<^verbatim>\<open>Math.exp\<close>\<close>

fun nsqrt :: "num \<Rightarrow> num" where
  "nsqrt (Fin a) = (if a < 0 then NaN else Fin (sqrt a))"
| "nsqrt PInf = PInf"
| "nsqrt NInf = NaN"
| "nsqrt NaN = NaN"

fun nabs :: "num \<Rightarrow> num" where
  "nabs (Fin a) = Fin \<bar>a\<bar>"
| "nabs PInf = PInf"
| "nabs NInf = PInf"
| "nabs NaN = NaN"

fun nexp :: "num \<Rightarrow> num" where
  "nexp (Fin a) = Fin (exp a)"
| "nexp PInf = PInf"
| "nexp NInf = Fin 0"
| "nexp NaN = NaN"

text \<open>\<^verbatim>\<open>a > b\<close> and \<^verbatim>\<open>a >= b\<close>: false as soon as one side is \<open>NaN\<close>.\<close>

fun ngt :: "num \<Rightarrow> num \<Rightarrow> bool" where
  "ngt (Fin a) (Fin b) = (a > b)"
| "ngt NaN _ = False"
| "ngt _ NaN = False"
| "ngt PInf PInf = False"
| "ngt PInf _ = True"
| "ngt NInf _ = False"
| "ngt (Fin a) PInf = False"
| "ngt (Fin a) NInf = True"

fun nge :: "num \<Rightarrow> num \<Rightarrow> bool" where
  "nge (Fin a) (Fin b) = (a \<ge> b)"
| "nge NaN _ = False"
| "nge _ NaN = False"
| "nge PInf _ = True"
| "nge NInf NInf = True"
| "nge NInf _ = False"
| "nge (Fin a) PInf = False"
| "nge (Fin a) NInf = True"

text \<open>\<^verbatim>\<open>arr.reduce((s, v) => s + f(v), 0)\<close>\<close>

definition reduce_sum :: "('a \<Rightarrow> num) \<Rightarrow> 'a list \<Rightarrow> num" where
  "reduce_sum f arr = foldl (\<lambda>s v. nadd s (f v)) (Fin 0) arr"

section \<open>Descriptive statistics\<close>

text \<open>
  \<^verbatim>\<open>function mean(arr) { return arr.reduce((s, v) => s + v, 0) / arr.length; }\<close>
\<close>

definition mean :: "num list \<Rightarrow> num" where
  "mean arr = ndiv (reduce_sum (\<lambda>v. v) arr) (Fin (real (length arr)))"

text \<open>
  \<^verbatim>\<open>function std(arr) { const m = mean(arr);
     return Math.sqrt(arr.reduce((s, v) => s + (v - m) ** 2, 0) / (arr.length - 1)); }\<close>
\<close>

definition sq_dev :: "num list \<Rightarrow> num \<Rightarrow> num" where
  "sq_dev arr m = reduce_sum (\<lambda>v. npow2 (nsub v m)) arr"

definition std :: "num list \<Rightarrow> num" where
  "std arr = (let m = mean arr in
     nsqrt (ndiv (sq_dev arr m) (Fin (real (length arr) - 1))))"



section \<open>Participant records and the report's descriptive block\<close>

text \<open>
  \<^verbatim>\<open>type ProcessedRow = { participant: string; C1: number; C2: number; delta: number; ... }\<close>
  with finite numbers in the three numeric fields.
\<close>

record ProcessedRow =
  participant :: string
  C1 :: real
  C2 :: real
  delta :: real





section \<open>Normality check\<close>

text \<open>
  \<^verbatim>\<open>shapiroWilkTest(data)\<close>: the series is sorted ascending, at most
  \<open>min 5 (n div 2)\<close> tail pairs are weighted by the coefficient table \<open>a\<close>, and
  \<open>W = (numerator / denom) ** 2\<close> with \<open>denom\<close> the square root of the sum of
  squared deviations. The loop reads \<open>sorted[n - 1 - i]\<close> and \<open>sorted[i]\<close> for
  \<open>i < n div 2\<close> only, inside the array.
\<close>

definition sw_a :: "real list" where
  "sw_a = [0.5739, 0.3291, 0.2141, 0.1224, 0.0399]"

definition sw_numerator :: "real list \<Rightarrow> real" where
  "sw_numerator srt =
     (let n = length srt in
      foldl (\<lambda>numerator i. numerator + sw_a ! i * (srt ! (n - 1 - i) - srt ! i))
        0 [0 ..< min 5 (n div 2)])"

definition sw_p :: "num \<Rightarrow> real" where
  "sw_p W = (if ngt W (Fin 0.95) then 0.7 else if ngt W (Fin 0.90) then 0.2
             else if ngt W (Fin 0.85) then 0.05 else 0.01)"

record shapiro_result =
  sh_W :: num
  sh_p :: real

definition shapiroWilkTest :: "real list \<Rightarrow> shapiro_result" where
  "shapiroWilkTest data =
     (let srt = sort data;
          numerator = sw_numerator srt;
          m = mean (map Fin data);
          denom = nsqrt (sq_dev (map Fin data) m);
          W = npow2 (ndiv (Fin numerator) denom)
      in \<lparr> sh_W = W, sh_p = sw_p W \<rparr>)"

section \<open>Normal distribution function\<close>

definition cdf_poly :: "num \<Rightarrow> num" where
  "cdf_poly t =
     nadd (Fin 0.3193815) (nmul t (nadd (Fin (- 0.3565638)) (nmul t (nadd (Fin 1.781478)
       (nmul t (nadd (Fin (- 1.821256)) (nmul t (Fin 1.330274))))))))"

definition normalCDF :: "num \<Rightarrow> num" where
  "normalCDF x =
     (let t = ndiv (Fin 1) (nadd (Fin 1) (nmul (Fin 0.2316419) (nabs x)));
          d = nmul (Fin 0.3989423) (nexp (ndiv (nmul (nneg x) x) (Fin 2)));
          prob = nmul (nmul d t) (cdf_poly t)
      in if nge x (Fin 0) then nsub (Fin 1) prob else prob)"

text \<open>
  The same computation on a finite argument, in real arithmetic: \<open>tail x\<close> is the
  source's \<open>prob\<close>.
\<close>

definition horner :: "real \<Rightarrow> real" where
  "horner t = 0.3193815 + t * (- 0.3565638 + t * (1.781478 + t * (- 1.821256 + t * 1.330274)))"

definition tail :: "real \<Rightarrow> real" where
  "tail x = (let t = 1 / (1 + 0.2316419 * \<bar>x\<bar>);
                 d = 0.3989423 * exp (- x * x / 2)
             in d * t * horner t)"

section \<open>Paired differences\<close>

text \<open>
  \<^verbatim>\<open>a.map((v, i) => f(v, b[i]))\<close>: every element of \<open>a\<close> with the element of
  \<open>b\<close> at its index, \<^verbatim>\<open>undefined\<close> (\<open>None\<close>) past the end of \<open>b\<close>.
\<close>

fun paired :: "'a list \<Rightarrow> 'b list \<Rightarrow> ('a \<times> 'b option) list" where
  "paired [] b = []"
| "paired (v # a) [] = (v, None) # paired a []"
| "paired (v # a) (w # b) = (v, Some w) # paired a b"

text \<open>\<^verbatim>\<open>a.map((v, i) => v - b[i])\<close>; a number minus \<^verbatim>\<open>undefined\<close> is \<open>NaN\<close>.\<close>

definition diffs :: "real list \<Rightarrow> real list \<Rightarrow> num list" where
  "diffs a b = map (\<lambda>(v, w). case w of Some w' \<Rightarrow> Fin (v - w') | None \<Rightarrow> NaN) (paired a b)"

section \<open>Paired t-test and Cohen's d\<close>

record ttest_result =
  tt_t :: num
  tt_df :: int
  tt_p :: num
  tt_meanDiff :: num
  tt_sdDiff :: num

definition pairedTTest :: "real list \<Rightarrow> real list \<Rightarrow> ttest_result" where
  "pairedTTest a b =
     (let ds = diffs a b;
          n = real (length ds);
          meanDiff = mean ds;
          sdDiff = nsqrt (ndiv (sq_dev ds meanDiff) (Fin (n - 1)));
          t = ndiv meanDiff (ndiv sdDiff (nsqrt (Fin n)));
          p = nmul (Fin 2) (nsub (Fin 1)
                (normalCDF (nmul (nabs t) (nsqrt (ndiv (Fin n) (Fin (n - 1)))))))
      in \<lparr> tt_t = t, tt_df = int (length ds) - 1, tt_p = p,
           tt_meanDiff = meanDiff, tt_sdDiff = sdDiff \<rparr>)"

definition cohensD :: "real list \<Rightarrow> real list \<Rightarrow> num" where
  "cohensD a b =
     (let ds = diffs a b;
          m = mean ds;
          sd = nsqrt (ndiv (sq_dev ds m) (Fin (real (length ds))))
      in ndiv m sd)"

section \<open>Wilcoxon signed-rank test\<close>

definition eps :: real where
  "eps = 1 / 10 ^ 10"

text \<open>
  \<^verbatim>\<open>diffs.filter(d => Math.abs(d) > 1e-10)\<close>. A difference that is \<open>NaN\<close> fails the
  test and is dropped, so the differences kept are finite numbers.
\<close>

definition nonZero :: "num list \<Rightarrow> real list" where
  "nonZero ds = List.map_filter
     (\<lambda>d. if ngt (nabs d) (Fin eps) then (case d of Fin r \<Rightarrow> Some r | _ \<Rightarrow> None) else None) ds"

record item =
  it_val :: real
  it_sign :: int
  it_idx :: nat

definition mk_items :: "real list \<Rightarrow> item list" where
  "mk_items nz = map (\<lambda>(d, idx). \<lparr> it_val = \<bar>d\<bar>, it_sign = (if d > 0 then 1 else - 1), it_idx = idx \<rparr>)
                   (zip nz [0 ..< length nz])"

definition tie_run :: "item list \<Rightarrow> nat" where
  "tie_run its = (case its of [] \<Rightarrow> 0
     | it # _ \<Rightarrow> length (takeWhile (\<lambda>x. \<bar>it_val x - it_val it\<bar> < eps) its))"

text \<open>
  The ranking loop: from position \<open>i\<close> (the head of the list) the inner \<^verbatim>\<open>while\<close>
  advances \<open>j\<close> over the items within \<open>1e-10\<close> of \<open>items[i]\<close>; they all get
  \<open>avgRank = (rank + (rank + (j - i) - 1)) / 2\<close>, then \<open>rank += j - i\<close> and the
  loop goes on at \<open>j\<close>.

  The items of this model are finite numbers, and the loop advances because
  \<open>\<bar>v - v\<bar> = 0 < 1e-10\<close>. In the source a difference \<open>a[i] - b[i]\<close> of two finite
  numbers overflows to an infinity when its exact value reaches
  \<open>2 ^ 1024 - 2 ^ 970\<close> in absolute value; such an item passes the filter, \<open>Infinity - Infinity\<close> is
  \<open>NaN\<close>, the test fails at \<open>j = i\<close> and the loop never advances. The model covers
  the calls in which no difference overflows (\<open>no_overflow\<close>), and what is proved
  about the result of the test in general carries that as a hypothesis.
\<close>

definition overflow_bound :: real where
  "overflow_bound = 2 ^ 1024 - 2 ^ 970"

definition no_overflow :: "real list \<Rightarrow> real list \<Rightarrow> bool" where
  "no_overflow a b = list_all (\<lambda>(x, y). \<bar>x - y\<bar> < overflow_bound) (zip a b)"

function assign_ranks :: "nat \<Rightarrow> item list \<Rightarrow> (item \<times> real) list" where
  "assign_ranks rank [] = []"
| "assign_ranks rank (it # its) =
     (let k = tie_run (it # its);
          avgRank = (real rank + (real rank + real k - 1)) / 2
      in map (\<lambda>x. (x, avgRank)) (take k (it # its)) @ assign_ranks (rank + k) (drop k (it # its)))"
  by pat_completeness auto
termination
proof (relation "measure (\<lambda>(rank, its). length its)")
  show "wf (measure (\<lambda>(rank, its). length its))" by simp
next
  fix rank :: nat and it :: item and its x
  assume "x = tie_run (it # its)"
  then have "0 < x" by (simp add: tie_run_def eps_def)
  then show "((rank + x, drop x (it # its)), (rank, it # its)) \<in> measure (\<lambda>(rank, its). length its)"
    by simp
qed

record wilcoxon_result =
  w_W :: num
  w_z :: num
  w_p :: num
  w_n :: nat

definition wPlus_of :: "(item \<times> real) list \<Rightarrow> real" where
  "wPlus_of ranked = foldl (\<lambda>s (it, r). s + r) 0 (filter (\<lambda>(it, r). it_sign it > 0) ranked)"

definition wilcoxon_z :: "real \<Rightarrow> nat \<Rightarrow> num" where
  "wilcoxon_z wPlus n =
     (let expectedW = real n * (real n + 1) / 4;
          varW = real n * (real n + 1) * (2 * real n + 1) / 24;
          correction = 0.5
      in ndiv (Fin (wPlus - expectedW - (if wPlus > expectedW then correction else - correction)))
              (nsqrt (Fin varW)))"

definition wilcoxonSignedRank :: "real list \<Rightarrow> real list \<Rightarrow> wilcoxon_result" where
  "wilcoxonSignedRank a b =
     (let nz = nonZero (diffs a b);
          n = length nz
      in if n = 0 then \<lparr> w_W = Fin 0, w_z = Fin 0, w_p = Fin 1, w_n = 0 \<rparr>
         else
           let items = sort_key it_val (mk_items nz);
               ranked = assign_ranks 1 items;
               wPlus = wPlus_of ranked;
               z = wilcoxon_z wPlus n;
               p = nmul (Fin 2) (nsub (Fin 1) (normalCDF (nabs z)))
           in \<lparr> w_W = Fin wPlus, w_z = z, w_p = p, w_n = n \<rparr>)"

text \<open>
  The ranking in the words of the specification, to compare the loop with: the absolute
  values are ranked ascending, and tied ones (within \<open>1e-10\<close>) receive the midrank, the
  average of the ranks they occupy. With \<open>below\<close> values smaller than \<open>v\<close> and not
  tied with it and \<open>ties\<close> values tied with \<open>v\<close> (\<open>v\<close> itself among them), these
  are the ranks \<open>below + 1, ..., below + ties\<close>. \<open>W+\<close> is the sum of the midranks of
  the positive differences.
\<close>

definition tied :: "real \<Rightarrow> real \<Rightarrow> bool" where
  "tied x y = (\<bar>x - y\<bar> < eps)"

definition spec_midrank :: "real list \<Rightarrow> real \<Rightarrow> real" where
  "spec_midrank vals v =
     (let below = length (filter (\<lambda>x. x < v \<and> \<not> tied x v) vals);
          ties = length (filter (\<lambda>x. tied x v) vals)
      in real below + (real ties + 1) / 2)"

definition spec_wPlus :: "real list \<Rightarrow> real" where
  "spec_wPlus nz = (\<Sum>d\<leftarrow>filter (\<lambda>d. d > 0) nz. spec_midrank (map abs nz) \<bar>d\<bar>)"

text \<open>Being tied is transitive on the values: the tied values form separate groups.\<close>

definition ties_transitive :: "real list \<Rightarrow> bool" where
  "ties_transitive vals =
     list_all (\<lambda>x. list_all (\<lambda>y. list_all (\<lambda>z. tied x y \<and> tied y z \<longrightarrow> tied x z) vals) vals) vals"

section \<open>Spearman rank correlation\<close>

text \<open>
  \<^verbatim>\<open>ranks(arr)\<close>: tag every value with its index, sort by value (the sort of an array
  is stable), number the sorted positions from 1, sort back by index.
\<close>

definition ranks :: "real list \<Rightarrow> nat list" where
  "ranks arr =
     (let tagged = zip arr [0 ..< length arr];
          byValue = sort_key fst tagged;
          numbered = map (\<lambda>(d, i). (d, i + 1)) (zip byValue [0 ..< length byValue]);
          byIndex = sort_key (\<lambda>(d, r). snd d) numbered
      in map snd byIndex)"

definition spearmanCorrelation :: "real list \<Rightarrow> real list \<Rightarrow> num" where
  "spearmanCorrelation x y =
     (let rx = map (\<lambda>r. Fin (real r)) (ranks x);
          ry = map (\<lambda>r. Fin (real r)) (ranks y);
          meanRx = mean rx;
          meanRy = mean ry;
          cov = reduce_sum (\<lambda>(r, s). nmul (nsub r meanRx)
                  (nsub (case s of Some s' \<Rightarrow> s' | None \<Rightarrow> NaN) meanRy)) (paired rx ry);
          varx = sq_dev rx meanRx;
          vary = sq_dev ry meanRy
      in ndiv cov (nsqrt (nmul varx vary)))"

text \<open>The sum of squared deviations of the ranks \<open>1, ..., n\<close> from their mean.\<close>

definition rank_var :: "nat \<Rightarrow> real" where
  "rank_var n = (\<Sum>j<n. (real (Suc j) - (real n + 1) / 2)\<^sup>2)"

section \<open>Chi-square goodness of fit\<close>

record chi_result =
  chiSq :: num
  chi_df :: int
  chi_p :: real

text \<open>
  One pass of the loop body. \<^verbatim>\<open>expected[i] <= 0\<close> is false for \<^verbatim>\<open>undefined\<close>, and
  the term added is then \<open>NaN\<close>.
\<close>

definition chi_step :: "num \<Rightarrow> real \<times> real option \<Rightarrow> num" where
  "chi_step acc oe =
     (case oe of
        (ob, None) \<Rightarrow> nadd acc NaN
      | (ob, Some ex) \<Rightarrow>
          if ex \<le> 0 then acc
          else nadd acc (ndiv (npow2 (nsub (Fin ob) (Fin ex))) (Fin ex)))"

definition chi_ladder :: "num \<Rightarrow> real" where
  "chi_ladder c = (if ngt c (Fin 9.21) then 0.01 else if ngt c (Fin 5.99) then 0.05
                   else if ngt c (Fin 4.61) then 0.1 else 0.2)"

definition chiSquareTest :: "real list \<Rightarrow> real list \<Rightarrow> chi_result" where
  "chiSquareTest observed expected =
     (let c = foldl chi_step (Fin 0) (paired observed expected)
      in \<lparr> chiSq = c, chi_df = int (length observed) - 1, chi_p = chi_ladder c \<rparr>)"

section \<open>The main test\<close>

text \<open>
  The memos \<^verbatim>\<open>shapiro\<close> and \<^verbatim>\<open>mainTest\<close>. The result is tagged with its
  \<^verbatim>\<open>type\<close>, \<^verbatim>\<open>'t'\<close> or \<^verbatim>\<open>'wilcoxon'\<close>, and carries \<^verbatim>\<open>effectSize\<close>.
\<close>

datatype main_result =
  T_test ttest_result num
| Wilcoxon_test wilcoxon_result num

definition shapiro :: "ProcessedRow list \<Rightarrow> shapiro_result option" where
  "shapiro processedData =
     (if processedData = [] then None else Some (shapiroWilkTest (map delta processedData)))"

definition mainTest :: "ProcessedRow list \<Rightarrow> shapiro_result option \<Rightarrow> main_result option" where
  "mainTest processedData sh =
     (if processedData = [] then None
      else
        let c1 = map C1 processedData; c2 = map C2 processedData in
        if (case sh of None \<Rightarrow> False | Some s \<Rightarrow> sh_p s > 0.05)
        then Some (T_test (pairedTTest c1 c2) (cohensD c1 c2))
        else
          let w = wilcoxonSignedRank c1 c2;
              r = ndiv (w_z w) (nsqrt (Fin (real (length processedData))))
          in Some (Wilcoxon_test w r))"

section \<open>Record aggregator\<close>

text \<open>
  The memo \<^verbatim>\<open>processedData\<close> of \<^verbatim>\<open>src/src/App.tsx\<close>. A trial row is an object
  read from the table of raw rows: \<open>t_participant\<close> is \<^verbatim>\<open>r.Participant || r.participant\<close>,
  \<open>t_condition\<close> is \<^verbatim>\<open>r.Condition || r.condition\<close>, and \<open>t_cols\<close> holds the
  other columns by name. A key of the object holds a finite number (\<open>Some (Some v)\<close>)
  or \<^verbatim>\<open>null\<close>, the value of an empty cell (\<open>Some None\<close>); a key the object does not
  have is \<open>None\<close>. The test \<^verbatim>\<open>k in rows[0]\<close> asks for the key (\<open>k \<in> dom\<close>), the
  read \<^verbatim>\<open>r[k] ?? ...\<close> for a value that is neither \<^verbatim>\<open>null\<close> nor missing.
\<close>

record TrialRow =
  t_participant :: string
  t_condition :: string
  t_cols :: "string \<rightharpoonup> real option"

record normalized =
  angry :: real
  disgusted :: real
  fearful :: real
  happy :: real
  neutral :: real
  sad :: real
  surprised :: real

text \<open>The values held by the keys of the row object under construction.\<close>

datatype rowval = VStr string | VNum num | VNorm normalized

text \<open>\<^verbatim>\<open>Array.from(new Set(xs))\<close>: the distinct values in the order of first occurrence.\<close>

definition set_order :: "'a list \<Rightarrow> 'a list" where
  "set_order xs = rev (remdups (rev xs))"

definition lower_char :: "char \<Rightarrow> char" where
  "lower_char c = (let k = (of_char c :: nat) in
                   if 65 \<le> k \<and> k \<le> 90 then char_of (k + 32) else c)"

definition toLowerCase :: "string \<Rightarrow> string" where
  "toLowerCase s = map lower_char s"

text \<open>\<^verbatim>\<open>r[col] ?? r[col.toLowerCase()] ?? 0\<close>\<close>

definition cell :: "TrialRow \<Rightarrow> string \<Rightarrow> real" where
  "cell r col = (case t_cols r col of Some (Some v) \<Rightarrow> v
                 | _ \<Rightarrow> (case t_cols r (toLowerCase col) of Some (Some v) \<Rightarrow> v | _ \<Rightarrow> 0))"

text \<open>\<^verbatim>\<open>avg(col)\<close>, called with at least one row.\<close>

definition avg :: "TrialRow list \<Rightarrow> string \<Rightarrow> real" where
  "avg rows col = foldl (\<lambda>s r. s + cell r col) 0 rows / real (length rows)"

fun getCol_loop :: "TrialRow \<Rightarrow> string list \<Rightarrow> string option" where
  "getCol_loop r0 [] = None"
| "getCol_loop r0 (n # names) =
     (if n \<in> dom (t_cols r0) then Some n
      else if toLowerCase n \<in> dom (t_cols r0) then Some (toLowerCase n)
      else getCol_loop r0 names)"

definition getCol :: "TrialRow \<Rightarrow> string list \<Rightarrow> string" where
  "getCol r0 names = (case getCol_loop r0 names of Some n \<Rightarrow> n
                      | None \<Rightarrow> (case names of n # _ \<Rightarrow> n | [] \<Rightarrow> ''undefined''))"

text \<open>\<^verbatim>\<open>x || y\<close> on finite numbers: \<open>y\<close> when \<open>x\<close> is zero.\<close>

definition js_or :: "real \<Rightarrow> real \<Rightarrow> real" where
  "js_or x y = (if x \<noteq> 0 then x else y)"

definition nonNeutralPercent :: "normalized \<Rightarrow> real" where
  "nonNeutralPercent nm =
     (angry nm + disgusted nm + fearful nm + happy nm + sad nm + surprised nm) / 120 * 100"

definition hasNorm :: "TrialRow \<Rightarrow> bool" where
  "hasNorm r0 = (''Angry (seconds)_norm'' \<in> dom (t_cols r0) \<or> ''Angry_norm'' \<in> dom (t_cols r0)
                 \<or> ''angry'' \<in> dom (t_cols r0))"

definition norm_of_cols :: "TrialRow list \<Rightarrow> normalized" where
  "norm_of_cols rows =
     (let r0 = hd rows in
      \<lparr> angry = avg rows (getCol r0 [''Angry (seconds)_norm'', ''Angry_norm'', ''angry'']),
        disgusted = avg rows (getCol r0 [''Disgusted (seconds)_norm'', ''Disgusted_norm'', ''disgusted'']),
        fearful = avg rows (getCol r0 [''Fearful (seconds)_norm'', ''Fearful_norm'', ''fearful'']),
        happy = avg rows (getCol r0 [''Happy (seconds)_norm'', ''Happy_norm'', ''happy'']),
        neutral = avg rows (getCol r0 [''Neutral (seconds)_norm'', ''Neutral_norm'', ''neutral'']),
        sad = avg rows (getCol r0 [''Sad (seconds)_norm'', ''Sad_norm'', ''sad'']),
        surprised = avg rows (getCol r0 [''Surprised (seconds)_norm'', ''Surprised_norm'', ''surprised'']) \<rparr>)"

definition raw_total :: "TrialRow list \<Rightarrow> real" where
  "raw_total rows =
     js_or (avg rows ''Angry'') (js_or (avg rows ''angry'') 0)
     + js_or (avg rows ''Disgusted'') (js_or (avg rows ''disgusted'') 0)
     + js_or (avg rows ''Fearful'') (js_or (avg rows ''fearful'') 0)
     + js_or (avg rows ''Happy'') (js_or (avg rows ''happy'') 0)
     + js_or (avg rows ''Neutral'') (js_or (avg rows ''neutral'') 0)
     + js_or (avg rows ''Sad'') (js_or (avg rows ''sad'') 0)
     + js_or (avg rows ''Surprised'') (js_or (avg rows ''surprised'') 0)"

definition raw_scale :: "TrialRow list \<Rightarrow> real" where
  "raw_scale rows = (let total = raw_total rows in if total > 0 then 120 / total else 1)"

definition norm_of_raw :: "TrialRow list \<Rightarrow> normalized" where
  "norm_of_raw rows =
     (let scale = raw_scale rows in
      \<lparr> angry = js_or (avg rows ''Angry'') (js_or (avg rows ''angry'') 0) * scale,
        disgusted = js_or (avg rows ''Disgusted'') (js_or (avg rows ''disgusted'') 0) * scale,
        fearful = js_or (avg rows ''Fearful'') (js_or (avg rows ''fearful'') 0) * scale,
        happy = js_or (avg rows ''Happy'') (js_or (avg rows ''happy'') 0) * scale,
        neutral = js_or (avg rows ''Neutral'') (js_or (avg rows ''neutral'') 0) * scale,
        sad = js_or (avg rows ''Sad'') (js_or (avg rows ''sad'') 0) * scale,
        surprised = js_or (avg rows ''Surprised'') (js_or (avg rows ''surprised'') 0) * scale \<rparr>)"

definition zero_norm :: normalized where
  "zero_norm = \<lparr> angry = 0, disgusted = 0, fearful = 0, happy = 0, neutral = 0, sad = 0, surprised = 0 \<rparr>"

text \<open>The rows of one participant in one condition, and the aggregate stored under \<open>row[c]\<close>.\<close>

definition trials :: "TrialRow list \<Rightarrow> string \<Rightarrow> string \<Rightarrow> TrialRow list" where
  "trials rawGrouped p c = filter (\<lambda>r. t_participant r = p \<and> t_condition r = c) rawGrouped"

definition aggregate :: "TrialRow list \<Rightarrow> real" where
  "aggregate rows =
     (if rows = [] then 0
      else if hasNorm (hd rows) then nonNeutralPercent (norm_of_cols rows)
      else nonNeutralPercent (norm_of_raw rows))"

text \<open>The body of \<^verbatim>\<open>conditions.forEach\<close>: the keys written for condition \<open>c\<close>, in the source's order.\<close>

definition condition_step :: "TrialRow list \<Rightarrow> string \<Rightarrow> string \<Rightarrow> (string \<rightharpoonup> rowval) \<Rightarrow> (string \<rightharpoonup> rowval)" where
  "condition_step rawGrouped p c row =
     (let rows = trials rawGrouped p c in
      if rows = [] then
        row(c \<mapsto> VNum (Fin 0),
            c @ ''_normalized'' \<mapsto> VNorm zero_norm,
            c @ ''_scaleFactor'' \<mapsto> VNum (Fin 1),
            c @ ''_totalSum'' \<mapsto> VNum (Fin 0))
      else if hasNorm (hd rows) then
        row(c @ ''_normalized'' \<mapsto> VNorm (norm_of_cols rows),
            c \<mapsto> VNum (Fin (nonNeutralPercent (norm_of_cols rows))))
      else
        row(c @ ''_normalized'' \<mapsto> VNorm (norm_of_raw rows),
            c \<mapsto> VNum (Fin (nonNeutralPercent (norm_of_raw rows))),
            c @ ''_scaleFactor'' \<mapsto> VNum (Fin (raw_scale rows)),
            c @ ''_totalSum'' \<mapsto> VNum (Fin (raw_total rows))))"

text \<open>
  \<^verbatim>\<open>row[k] ?? 0\<close> as the operand of a subtraction: a missing key counts 0, a value
  that is not a number gives \<open>NaN\<close>.
\<close>

definition operand :: "rowval option \<Rightarrow> num" where
  "operand v = (case v of None \<Rightarrow> Fin 0 | Some (VNum x) \<Rightarrow> x | Some _ \<Rightarrow> NaN)"

definition participant_row :: "TrialRow list \<Rightarrow> string list \<Rightarrow> string \<Rightarrow> (string \<rightharpoonup> rowval)" where
  "participant_row rawGrouped conditions p =
     (let row = fold (condition_step rawGrouped p) conditions [''participant'' \<mapsto> VStr p]
      in row(''delta'' \<mapsto> VNum (nsub (operand (row ''C1'')) (operand (row ''C2'')))))"

definition processedData :: "TrialRow list option \<Rightarrow> (string \<rightharpoonup> rowval) list" where
  "processedData rawGrouped =
     (case rawGrouped of None \<Rightarrow> []
      | Some raw \<Rightarrow>
          let participants = set_order (map t_participant raw);
              conditions = set_order (map t_condition raw)
          in map (participant_row raw conditions) participants)"

section \<open>Sums of finite numbers\<close>

lemma foldl_nadd_Fin:
  "foldl (\<lambda>s v. nadd s (Fin (g v))) (Fin s0) xs = Fin (s0 + sum_list (map g xs))"
  by (induction xs arbitrary: s0) (simp_all add: add.assoc)

lemma reduce_sum_Fin:
  "reduce_sum (\<lambda>v. Fin (g v)) xs = Fin (sum_list (map g xs))"
  by (simp add: reduce_sum_def foldl_nadd_Fin)

lemma reduce_sum_map_Fin:
  assumes "\<And>v. f (Fin v) = Fin (g v)"
  shows "reduce_sum f (map Fin xs) = Fin (sum_list (map g xs))"
proof -
  have "foldl (\<lambda>s v. nadd s (f v)) (Fin s0) (map Fin xs) = Fin (s0 + sum_list (map g xs))" for s0
    by (induction xs arbitrary: s0) (simp_all add: assms add.assoc)
  then show ?thesis by (simp add: reduce_sum_def)
qed

lemma mean_Fin:
  "xs \<noteq> [] \<Longrightarrow> mean (map Fin xs) = Fin (sum_list xs / real (length xs))"
  using reduce_sum_map_Fin [of "\<lambda>v. v" "\<lambda>v. v" xs] by (simp add: mean_def)

lemma sq_dev_Fin:
  "sq_dev (map Fin xs) (Fin m) = Fin (\<Sum>v\<leftarrow>xs. (v - m)\<^sup>2)"
  unfolding sq_dev_def
  by (rule reduce_sum_map_Fin) (simp add: npow2_def nsub_def power2_eq_square)

lemma sum_list_sq_nonneg: "0 \<le> (\<Sum>v\<leftarrow>xs. (v - m)\<^sup>2)" for m :: real
  by (rule sum_list_nonneg) auto

lemma std_Fin:
  assumes "2 \<le> length xs"
  shows "std (map Fin xs) =
    Fin (sqrt ((\<Sum>v\<leftarrow>xs. (v - sum_list xs / real (length xs))\<^sup>2) / (real (length xs) - 1)))"
proof -
  from assms have ne: "xs \<noteq> []" by auto
  have pos: "real (length xs) - 1 > 0" using assms by simp
  have "0 \<le> (\<Sum>v\<leftarrow>xs. (v - sum_list xs / real (length xs))\<^sup>2) / (real (length xs) - 1)"
    using pos sum_list_sq_nonneg by (simp add: divide_nonneg_pos)
  then show ?thesis
    using pos by (simp add: std_def mean_Fin [OF ne] sq_dev_Fin Let_def not_less)
qed


section \<open>The standard deviation of a single value\<close>



section \<open>The aggregator's delta\<close>

lemma short_key_neq:
  "length k < 9 \<Longrightarrow> k \<noteq> c @ ''_normalized'' \<and> k \<noteq> c @ ''_scaleFactor'' \<and> k \<noteq> c @ ''_totalSum''"
  by auto

lemma condition_step_key:
  assumes "length k < 9"
  shows "condition_step raw p c row k =
           (if k = c then Some (VNum (Fin (aggregate (trials raw p c)))) else row k)"
  using short_key_neq [OF assms, of c]
  by (auto simp: condition_step_def aggregate_def Let_def)

lemma fold_condition_step_key:
  assumes "length k < 9"
  shows "fold (condition_step raw p) conds row k =
           (if k \<in> set conds then Some (VNum (Fin (aggregate (trials raw p k)))) else row k)"
proof (induction conds arbitrary: row rule: rev_induct)
  case Nil
  show ?case by simp
next
  case (snoc c conds)
  show ?case by (simp add: condition_step_key [OF assms] snoc.IH)
qed

lemma set_set_order: "set (set_order xs) = set xs"
  by (simp add: set_order_def)

lemma trials_absent:
  "c \<notin> set (map t_condition raw) \<Longrightarrow> trials raw p c = []"
  by (auto simp: trials_def filter_empty_conv)

lemma operand_fold:
  assumes "length k < 9" "k \<noteq> ''participant''"
  shows "operand (fold (condition_step raw p) (set_order (map t_condition raw)) [''participant'' \<mapsto> VStr p] k)
         = Fin (aggregate (trials raw p k))"
proof (cases "k \<in> set (map t_condition raw)")
  case True
  then show ?thesis
    by (simp add: fold_condition_step_key [OF assms(1)] set_set_order operand_def)
next
  case False
  then have "trials raw p k = []" by (rule trials_absent)
  with False assms(2) show ?thesis
    by (simp add: fold_condition_step_key [OF assms(1)] set_set_order operand_def aggregate_def)
qed

lemma participant_row_delta:
  fixes raw p
  defines "row \<equiv> participant_row raw (set_order (map t_condition raw)) p"
  shows "row ''delta'' = Some (VNum (nsub (operand (row ''C1'')) (operand (row ''C2''))))"
    and "operand (row ''C1'') = Fin (aggregate (trials raw p ''C1''))"
    and "operand (row ''C2'') = Fin (aggregate (trials raw p ''C2''))"
  unfolding row_def participant_row_def Let_def
  by (simp_all add: operand_fold)

lemma participant_key_neq:
  "''participant'' \<noteq> c @ ''_normalized'' \<and> ''participant'' \<noteq> c @ ''_scaleFactor''
   \<and> ''participant'' \<noteq> c @ ''_totalSum''"
proof -
  have "''participant'' \<noteq> c @ ''_totalSum''"
  proof
    assume eq: "''participant'' = c @ ''_totalSum''"
    then have "length ''participant'' = length (c @ ''_totalSum'')" by simp
    then have "length c = 2" by simp
    with eq have "drop 2 ''participant'' = ''_totalSum''" by (metis append_eq_conv_conj)
    then show False by simp
  qed
  moreover have "''participant'' \<noteq> c @ ''_normalized''"
  proof
    assume eq: "''participant'' = c @ ''_normalized''"
    then have "length ''participant'' = length (c @ ''_normalized'')" by simp
    then have "c = []" by simp
    with eq show False by simp
  qed
  moreover have "''participant'' \<noteq> c @ ''_scaleFactor''"
  proof
    assume "''participant'' = c @ ''_scaleFactor''"
    then have "length ''participant'' = length (c @ ''_scaleFactor'')" by simp
    then show False by simp
  qed
  ultimately show ?thesis by blast
qed

lemma condition_step_other:
  assumes "k \<noteq> c" "k \<noteq> c @ ''_normalized''" "k \<noteq> c @ ''_scaleFactor''" "k \<noteq> c @ ''_totalSum''"
  shows "condition_step raw p c row k = row k"
  using assms by (auto simp: condition_step_def Let_def)

lemma fold_condition_step_participant:
  assumes "''participant'' \<notin> set conds"
  shows "fold (condition_step raw p) conds row ''participant'' = row ''participant''"
  using assms
proof (induction conds arbitrary: row rule: rev_induct)
  case Nil
  show ?case by simp
next
  case (snoc c conds)
  then have "''participant'' \<noteq> c" by auto
  then have "condition_step raw p c (fold (condition_step raw p) conds row) ''participant''
      = fold (condition_step raw p) conds row ''participant''"
    using participant_key_neq [of c] by (intro condition_step_other) simp_all
  with snoc show ?case by simp
qed

lemma participant_row_participant:
  assumes "''participant'' \<notin> set (map t_condition raw)"
  shows "participant_row raw (set_order (map t_condition raw)) p ''participant'' = Some (VStr p)"
  using assms
  by (simp add: participant_row_def Let_def fold_condition_step_participant set_set_order)

lemma processedData_nth:
  assumes "i < length (set_order (map t_participant raw))"
  shows "processedData (Some raw) ! i =
    participant_row raw (set_order (map t_condition raw)) (set_order (map t_participant raw) ! i)"
  using assms by (simp add: processedData_def Let_def)

text \<open>
  C5. The aggregator produces one record per distinct participant, in the order of
  first occurrence. The record at position \<open>i\<close> belongs to the participant at
  position \<open>i\<close> (it holds that id under \<open>participant\<close>, unless a condition of that name
  overwrites the key), and its \<open>delta\<close> is its own C1 value minus its own C2 value, a
  missing key counting 0. These two operands are the aggregates of that participant's
  C1 and C2 trials, the aggregate of no trials being 0; so with trials in one condition
  only, \<open>delta\<close> is the aggregate of the present condition, negated when that is C2.
\<close>

theorem C5_delta_is_C1_minus_C2:
  "let ps = set_order (map t_participant raw); recs = processedData (Some raw) in
     length recs = length ps \<and> distinct ps \<and> set ps = set (map t_participant raw)
   \<and> (\<forall>i < length ps.
        let row = recs ! i; p = ps ! i;
            c1 = aggregate (filter (\<lambda>r. t_participant r = p \<and> t_condition r = ''C1'') raw);
            c2 = aggregate (filter (\<lambda>r. t_participant r = p \<and> t_condition r = ''C2'') raw)
        in (''participant'' \<notin> set (map t_condition raw) \<longrightarrow> row ''participant'' = Some (VStr p))
         \<and> row ''delta'' = Some (VNum (nsub (operand (row ''C1'')) (operand (row ''C2''))))
         \<and> operand (row ''C1'') = Fin c1 \<and> operand (row ''C2'') = Fin c2
         \<and> row ''delta'' = Some (VNum (Fin (c1 - c2)))
         \<and> (filter (\<lambda>r. t_participant r = p \<and> t_condition r = ''C2'') raw = [] \<longrightarrow>
              row ''delta'' = Some (VNum (Fin c1)))
         \<and> (filter (\<lambda>r. t_participant r = p \<and> t_condition r = ''C1'') raw = [] \<longrightarrow>
              row ''delta'' = Some (VNum (Fin (- c2)))))"
proof -
  define ps where "ps = set_order (map t_participant raw)"
  define recs where "recs = processedData (Some raw)"
  have len: "length recs = length ps"
    by (simp add: recs_def ps_def processedData_def Let_def)
  have dist: "distinct ps" by (simp add: ps_def set_order_def)
  have set: "set ps = set (map t_participant raw)" unfolding ps_def by (rule set_set_order)
  have each: "(''participant'' \<notin> set (map t_condition raw) \<longrightarrow> row ''participant'' = Some (VStr p))
         \<and> row ''delta'' = Some (VNum (nsub (operand (row ''C1'')) (operand (row ''C2''))))
         \<and> operand (row ''C1'') = Fin c1 \<and> operand (row ''C2'') = Fin c2
         \<and> row ''delta'' = Some (VNum (Fin (c1 - c2)))
         \<and> (filter (\<lambda>r. t_participant r = p \<and> t_condition r = ''C2'') raw = [] \<longrightarrow>
              row ''delta'' = Some (VNum (Fin c1)))
         \<and> (filter (\<lambda>r. t_participant r = p \<and> t_condition r = ''C1'') raw = [] \<longrightarrow>
              row ''delta'' = Some (VNum (Fin (- c2))))"
    if i: "i < length ps" and row: "row = recs ! i" and p: "p = ps ! i"
      and c1: "c1 = aggregate (filter (\<lambda>r. t_participant r = p \<and> t_condition r = ''C1'') raw)"
      and c2: "c2 = aggregate (filter (\<lambda>r. t_participant r = p \<and> t_condition r = ''C2'') raw)"
    for i row p c1 c2
  proof -
    have r: "row = participant_row raw (set_order (map t_condition raw)) p"
      unfolding row recs_def p ps_def by (rule processedData_nth [OF i [unfolded ps_def]])
    note d = participant_row_delta [of raw p, folded r, unfolded trials_def, folded c1 c2]
    have full: "row ''delta'' = Some (VNum (Fin (c1 - c2)))"
      by (simp add: d nsub_def)
    have e1: "filter (\<lambda>r. t_participant r = p \<and> t_condition r = ''C2'') raw = [] \<Longrightarrow> c2 = 0"
      and e2: "filter (\<lambda>r. t_participant r = p \<and> t_condition r = ''C1'') raw = [] \<Longrightarrow> c1 = 0"
      by (simp_all add: c1 c2 aggregate_def)
    have part: "''participant'' \<notin> set (map t_condition raw) \<longrightarrow> row ''participant'' = Some (VStr p)"
      unfolding r using participant_row_participant [of raw p] by blast
    have o1: "operand (row ''C1'') = Fin c1" and o2: "operand (row ''C2'') = Fin c2"
      and dd: "row ''delta'' = Some (VNum (nsub (operand (row ''C1'')) (operand (row ''C2''))))"
      using d by simp_all
    have z2: "filter (\<lambda>r. t_participant r = p \<and> t_condition r = ''C2'') raw = [] \<longrightarrow>
              row ''delta'' = Some (VNum (Fin c1))"
      using full e1 by simp
    have z1: "filter (\<lambda>r. t_participant r = p \<and> t_condition r = ''C1'') raw = [] \<longrightarrow>
              row ''delta'' = Some (VNum (Fin (- c2)))"
      using full e2 by simp
    from part dd o1 o2 full z2 z1 show ?thesis by blast
  qed
  have all: "\<forall>i < length ps.
        let row = recs ! i; p = ps ! i;
            c1 = aggregate (filter (\<lambda>r. t_participant r = p \<and> t_condition r = ''C1'') raw);
            c2 = aggregate (filter (\<lambda>r. t_participant r = p \<and> t_condition r = ''C2'') raw)
        in (''participant'' \<notin> set (map t_condition raw) \<longrightarrow> row ''participant'' = Some (VStr p))
         \<and> row ''delta'' = Some (VNum (nsub (operand (row ''C1'')) (operand (row ''C2''))))
         \<and> operand (row ''C1'') = Fin c1 \<and> operand (row ''C2'') = Fin c2
         \<and> row ''delta'' = Some (VNum (Fin (c1 - c2)))
         \<and> (filter (\<lambda>r. t_participant r = p \<and> t_condition r = ''C2'') raw = [] \<longrightarrow>
              row ''delta'' = Some (VNum (Fin c1)))
         \<and> (filter (\<lambda>r. t_participant r = p \<and> t_condition r = ''C1'') raw = [] \<longrightarrow>
              row ''delta'' = Some (VNum (Fin (- c2))))"
  proof (intro allI impI)
    fix i assume "i < length ps"
    from each [OF this refl refl refl refl]
    show "let row = recs ! i; p = ps ! i;
            c1 = aggregate (filter (\<lambda>r. t_participant r = p \<and> t_condition r = ''C1'') raw);
            c2 = aggregate (filter (\<lambda>r. t_participant r = p \<and> t_condition r = ''C2'') raw)
        in (''participant'' \<notin> set (map t_condition raw) \<longrightarrow> row ''participant'' = Some (VStr p))
         \<and> row ''delta'' = Some (VNum (nsub (operand (row ''C1'')) (operand (row ''C2''))))
         \<and> operand (row ''C1'') = Fin c1 \<and> operand (row ''C2'') = Fin c2
         \<and> row ''delta'' = Some (VNum (Fin (c1 - c2)))
         \<and> (filter (\<lambda>r. t_participant r = p \<and> t_condition r = ''C2'') raw = [] \<longrightarrow>
              row ''delta'' = Some (VNum (Fin c1)))
         \<and> (filter (\<lambda>r. t_participant r = p \<and> t_condition r = ''C1'') raw = [] \<longrightarrow>
              row ''delta'' = Some (VNum (Fin (- c2))))"
      unfolding Let_def .
  qed
  from len dist set all show ?thesis
    unfolding ps_def recs_def Let_def by blast
qed

theorem C5_delta_is_C1_minus_C2_witness:
  "set_order (map t_participant
      [\<lparr>t_participant = ''P1'', t_condition = ''C1'', t_cols = [''angry'' \<mapsto> Some 12]\<rparr>,
       \<lparr>t_participant = ''P1'', t_condition = ''C2'', t_cols = [''angry'' \<mapsto> Some 6]\<rparr>,
       \<lparr>t_participant = ''P2'', t_condition = ''C2'', t_cols = [''angry'' \<mapsto> Some 24, ''sad'' \<mapsto> None]\<rparr>])
     = [''P1'', ''P2'']
   \<and> (processedData (Some
      [\<lparr>t_participant = ''P1'', t_condition = ''C1'', t_cols = [''angry'' \<mapsto> Some 12]\<rparr>,
       \<lparr>t_participant = ''P1'', t_condition = ''C2'', t_cols = [''angry'' \<mapsto> Some 6]\<rparr>,
       \<lparr>t_participant = ''P2'', t_condition = ''C2'', t_cols = [''angry'' \<mapsto> Some 24, ''sad'' \<mapsto> None]\<rparr>]) ! 0)
       ''delta'' = Some (VNum (Fin 5))
   \<and> (processedData (Some
      [\<lparr>t_participant = ''P1'', t_condition = ''C1'', t_cols = [''angry'' \<mapsto> Some 12]\<rparr>,
       \<lparr>t_participant = ''P1'', t_condition = ''C2'', t_cols = [''angry'' \<mapsto> Some 6]\<rparr>,
       \<lparr>t_participant = ''P2'', t_condition = ''C2'', t_cols = [''angry'' \<mapsto> Some 24, ''sad'' \<mapsto> None]\<rparr>]) ! 1)
       ''participant'' = Some (VStr ''P2'')
   \<and> (processedData (Some
      [\<lparr>t_participant = ''P1'', t_condition = ''C1'', t_cols = [''angry'' \<mapsto> Some 12]\<rparr>,
       \<lparr>t_participant = ''P1'', t_condition = ''C2'', t_cols = [''angry'' \<mapsto> Some 6]\<rparr>,
       \<lparr>t_participant = ''P2'', t_condition = ''C2'', t_cols = [''angry'' \<mapsto> Some 24, ''sad'' \<mapsto> None]\<rparr>]) ! 1)
       ''delta'' = Some (VNum (Fin (- 20)))"
proof -
  define r1 where "r1 = \<lparr>t_participant = ''P1'', t_condition = ''C1'', t_cols = [''angry'' \<mapsto> Some (12 :: real)]\<rparr>"
  define r2 where "r2 = \<lparr>t_participant = ''P1'', t_condition = ''C2'', t_cols = [''angry'' \<mapsto> Some (6 :: real)]\<rparr>"
  define r3 where "r3 = \<lparr>t_participant = ''P2'', t_condition = ''C2'',
                         t_cols = [''angry'' \<mapsto> Some (24 :: real), ''sad'' \<mapsto> None]\<rparr>"
  define recs where "recs = processedData (Some [r1, r2, r3])"
  note agg = aggregate_def hasNorm_def norm_of_cols_def nonNeutralPercent_def avg_def
    getCol_def cell_def toLowerCase_def lower_char_def
  have ps: "set_order (map t_participant [r1, r2, r3]) = [''P1'', ''P2'']"
    by (simp add: set_order_def r1_def r2_def r3_def)
  have f11: "filter (\<lambda>r. t_participant r = ''P1'' \<and> t_condition r = ''C1'') [r1, r2, r3] = [r1]"
    and f12: "filter (\<lambda>r. t_participant r = ''P1'' \<and> t_condition r = ''C2'') [r1, r2, r3] = [r2]"
    and f21: "filter (\<lambda>r. t_participant r = ''P2'' \<and> t_condition r = ''C1'') [r1, r2, r3] = []"
    and f22: "filter (\<lambda>r. t_participant r = ''P2'' \<and> t_condition r = ''C2'') [r1, r2, r3] = [r3]"
    by (simp_all add: r1_def r2_def r3_def)
  have a1: "aggregate [r1] = 10" by (simp add: agg r1_def)
  have a2: "aggregate [r2] = 5" by (simp add: agg r2_def)
  have a3: "aggregate [r3] = 20" by (simp add: agg r3_def)
  have nc: "''participant'' \<notin> set (map t_condition [r1, r2, r3])"
    by (simp add: r1_def r2_def r3_def)
  note T = C5_delta_is_C1_minus_C2 [of "[r1, r2, r3]", unfolded Let_def ps, folded recs_def]
  from T have all: "\<forall>i<length [''P1'', ''P2''].
       (''participant'' \<notin> set (map t_condition [r1, r2, r3]) \<longrightarrow>
          (recs ! i) ''participant'' = Some (VStr ([''P1'', ''P2''] ! i)))
     \<and> (recs ! i) ''delta'' = Some (VNum (Fin
          (aggregate (filter (\<lambda>r. t_participant r = [''P1'', ''P2''] ! i \<and> t_condition r = ''C1'') [r1, r2, r3])
         - aggregate (filter (\<lambda>r. t_participant r = [''P1'', ''P2''] ! i \<and> t_condition r = ''C2'') [r1, r2, r3]))))"
    by blast
  have l0: "0 < length [''P1'', ''P2'']" and l1: "1 < length [''P1'', ''P2'']" by simp_all
  have n0: "[''P1'', ''P2''] ! 0 = ''P1''" and n1: "[''P1'', ''P2''] ! 1 = ''P2''" by simp_all
  have e0: "aggregate [] = 0" by (simp add: aggregate_def)
  from all [rule_format, OF l0] have d0: "(recs ! 0) ''delta'' = Some (VNum (Fin 5))"
    unfolding n0 f11 f12 a1 a2 by simp
  from all [rule_format, OF l1] nc have d1: "(recs ! 1) ''participant'' = Some (VStr ''P2'')"
      "(recs ! 1) ''delta'' = Some (VNum (Fin (- 20)))"
    unfolding n1 f21 f22 a3 e0 by simp_all
  from ps d0 d1 show ?thesis
    unfolding recs_def r1_def r2_def r3_def by blast
qed

section \<open>Chi-square\<close>

lemma paired_same_length:
  "length a = length b \<Longrightarrow> paired a b = map (\<lambda>(x, y). (x, Some y)) (zip a b)"
  by (induction a b rule: list_induct2) simp_all

lemma chi_step_Some:
  "chi_step (Fin acc) (ob, Some ex) = Fin (if ex > 0 then acc + (ob - ex)\<^sup>2 / ex else acc)"
  by (simp add: chi_step_def npow2_def nsub_def power2_eq_square)

lemma foldl_chi_step:
  "foldl chi_step (Fin acc) (map (\<lambda>(x, y). (x, Some y)) ps) =
     Fin (acc + (\<Sum>(ob, ex) \<leftarrow> filter (\<lambda>(ob, ex). ex > 0) ps. (ob - ex)\<^sup>2 / ex))"
proof (induction ps arbitrary: acc)
  case Nil
  show ?case by simp
next
  case (Cons q ps)
  obtain ob ex where q: "q = (ob, ex)" by (cases q)
  show ?case
    by (simp add: q chi_step_Some Cons.IH add.assoc)
qed

lemma chi_ladder_Fin:
  "chi_ladder (Fin c) = (if c > 9.21 then 0.01 else if c > 5.99 then 0.05
                         else if c > 4.61 then 0.1 else 0.2)"
  by (simp add: chi_ladder_def)

text \<open>
  C9. For observed and expected series of the same length \<open>k\<close>, the statistic is the
  sum of \<open>(observed - expected)\<^sup>2 / expected\<close> over the indices whose expected value
  is positive, the degrees of freedom are \<open>k - 1\<close>, and \<open>p\<close> is read off the ladder
  0.01 / 0.05 / 0.1 / 0.2 at 9.21, 5.99 and 4.61. Entries with a non-positive expected
  value are skipped (second conjunct). For observed \<open>[6, 2, 2]\<close> and expected
  \<open>[3.33, 3.33, 3.33]\<close> the statistic is \<open>106667 / 33300 = 3.2032...\<close>, within
  \<open>0.001\<close> of 3.204, with 2 degrees of freedom and \<open>p = 0.2\<close>.
\<close>

theorem C9_chi_square:
  "(length observed = length expected \<longrightarrow>
      (let c = (\<Sum>(ob, ex) \<leftarrow> filter (\<lambda>(ob, ex). ex > 0) (zip observed expected). (ob - ex)\<^sup>2 / ex)
       in chiSquareTest observed expected =
            \<lparr> chiSq = Fin c, chi_df = int (length observed) - 1,
              chi_p = (if c > 9.21 then 0.01 else if c > 5.99 then 0.05
                       else if c > 4.61 then 0.1 else 0.2) \<rparr>))
   \<and> chiSq (chiSquareTest [6, 2, 2] [3, 0, - 1]) = Fin 3
   \<and> chiSquareTest [6, 2, 2] [3.33, 3.33, 3.33] =
        \<lparr> chiSq = Fin (106667 / 33300), chi_df = 2, chi_p = 0.2 \<rparr>
   \<and> \<bar>106667 / 33300 - 3.204\<bar> < (1 / 1000 :: real)"
proof -
  have ex: "chiSquareTest [6, 2, 2] [3.33, 3.33, 3.33] =
        \<lparr> chiSq = Fin (106667 / 33300), chi_df = 2, chi_p = 0.2 \<rparr>"
    by (simp add: chiSquareTest_def chi_step_def chi_ladder_def npow2_def nsub_def)
  have skip: "chiSq (chiSquareTest [6, 2, 2] [3, 0, - 1]) = Fin 3"
    by (simp add: chiSquareTest_def chi_step_def chi_ladder_def npow2_def nsub_def)
  have gen: "length observed = length expected \<longrightarrow>
      (let c = (\<Sum>(ob, ex) \<leftarrow> filter (\<lambda>(ob, ex). ex > 0) (zip observed expected). (ob - ex)\<^sup>2 / ex)
       in chiSquareTest observed expected =
            \<lparr> chiSq = Fin c, chi_df = int (length observed) - 1,
              chi_p = (if c > 9.21 then 0.01 else if c > 5.99 then 0.05
                       else if c > 4.61 then 0.1 else 0.2) \<rparr>)"
    by (simp add: chiSquareTest_def paired_same_length foldl_chi_step chi_ladder_Fin Let_def)
  have "\<bar>106667 / 33300 - 3.204\<bar> < (1 / 1000 :: real)" by simp
  with ex skip gen show ?thesis by blast
qed

theorem C9_chi_square_witness:
  "length [6, 2, 2 :: real] = length [3.33, 3.33, 3.33 :: real]
   \<and> chiSq (chiSquareTest [6, 2, 2] [3.33, 3.33, 3.33]) =
       Fin ((6 - 3.33)\<^sup>2 / 3.33 + ((2 - 3.33)\<^sup>2 / 3.33 + (2 - 3.33)\<^sup>2 / 3.33))"
  using C9_chi_square [of "[6, 2, 2]" "[3.33, 3.33, 3.33]"]
  by (simp add: Let_def)

section \<open>Wilcoxon signed-rank test: the ranks\<close>

lemma diffs_same_length:
  "length a = length b \<Longrightarrow> diffs a b = map Fin (map2 (-) a b)"
  by (auto simp: diffs_def paired_same_length)

lemma nonZero_Fin:
  "nonZero (map Fin ds) = filter (\<lambda>d. \<bar>d\<bar> > 1 / 10 ^ 10) ds"
  by (induction ds) (simp_all add: nonZero_def List.map_filter_def eps_def)

lemma tie_run_le: "tie_run its \<le> length its"
proof (cases its)
  case Nil
  then show ?thesis by (simp add: tie_run_def)
next
  case (Cons it rest)
  show ?thesis
    unfolding Cons tie_run_def list.case by (rule length_takeWhile_le)
qed

lemma assign_ranks_fst: "map fst (assign_ranks r its) = its"
proof (induction r its rule: assign_ranks.induct)
  case (1 rank)
  show ?case by simp
next
  case (2 rank it its)
  have "map fst (assign_ranks rank (it # its)) =
      take (tie_run (it # its)) (it # its) @ drop (tie_run (it # its)) (it # its)"
    using 2 [OF refl refl] by (simp add: Let_def comp_def del: take_Cons' drop_Cons' take.simps drop.simps)
  then show ?case by (simp del: take.simps drop.simps)
qed

lemma assign_ranks_sum:
  "sum_list (map snd (assign_ranks r its)) =
     real (length its) * real r + real (length its) * (real (length its) - 1) / 2"
proof (induction r its rule: assign_ranks.induct)
  case (1 rank)
  show ?case by simp
next
  case (2 rank it its)
  define k where "k = tie_run (it # its)"
  have k: "k \<le> length (it # its)" unfolding k_def by (rule tie_run_le)
  define m where "m = length (it # its) - k"
  have len: "real (length (it # its)) = real k + real m" using k by (simp add: m_def)
  have IH: "sum_list (map snd (assign_ranks (rank + k) (drop k (it # its)))) =
     real m * real (rank + k) + real m * (real m - 1) / 2"
    using 2 [OF k_def refl] by (simp add: m_def del: drop.simps)
  have tk: "length (take k (it # its)) = k" using k by (simp del: take.simps)
  have "sum_list (map snd (assign_ranks rank (it # its))) =
     real k * ((real rank + (real rank + real k - 1)) / 2)
     + (real m * real (rank + k) + real m * (real m - 1) / 2)"
    using IH k by (simp add: Let_def k_def [symmetric] comp_def sum_list_triv min_def
       del: take.simps drop.simps)
  also have "\<dots> = (real k + real m) * real rank + (real k + real m) * ((real k + real m) - 1) / 2"
    by (simp add: field_simps)
  finally show ?case unfolding len .
qed


lemma wPlus_of_sum: "wPlus_of ranked = sum_list (map snd (filter (\<lambda>(it, r). it_sign it > 0) ranked))"
proof -
  have "foldl (\<lambda>s (it, r). s + r) s0 xs = s0 + sum_list (map snd xs)" for s0 :: real and xs :: "(item \<times> real) list"
    by (induction xs arbitrary: s0) (auto simp: add.assoc)
  then show ?thesis by (simp add: wPlus_of_def)
qed

lemma mk_items_sign:
  assumes "\<forall>d \<in> set nz. d > 0" "x \<in> set (mk_items nz)"
  shows "it_sign x > 0"
  using assms by (auto simp: mk_items_def dest!: set_zip_leftD)

lemma wPlus_all_positive:
  assumes "\<forall>d \<in> set nz. d > 0"
  shows "wPlus_of (assign_ranks 1 (sort_key it_val (mk_items nz))) =
           real (length nz) * (real (length nz) + 1) / 2"
proof -
  let ?items = "sort_key it_val (mk_items nz)"
  let ?ranked = "assign_ranks 1 ?items"
  have "\<forall>x \<in> set ?ranked. it_sign (fst x) > 0"
  proof
    fix x assume "x \<in> set ?ranked"
    then have "fst x \<in> set (map fst ?ranked)" by simp
    then have "fst x \<in> set (mk_items nz)" by (simp add: assign_ranks_fst)
    with assms show "it_sign (fst x) > 0" by (rule mk_items_sign)
  qed
  then have "filter (\<lambda>(it, r). it_sign it > 0) ?ranked = ?ranked"
    by (auto simp: filter_id_conv)
  then have "wPlus_of ?ranked = sum_list (map snd ?ranked)"
    by (simp add: wPlus_of_sum)
  also have "\<dots> = real (length nz) + real (length nz) * (real (length nz) - 1) / 2"
    by (simp add: assign_ranks_sum mk_items_def)
  also have "\<dots> = real (length nz) * (real (length nz) + 1) / 2"
    by (simp add: field_simps)
  finally show ?thesis .
qed

text \<open>
  Away from the expected value the standardisation is the signed continuity correction:
  \<open>sgn\<close> is 1 or -1 there, and the code subtracts \<open>0.5\<close> or \<open>-0.5\<close>.
\<close>

lemma wilcoxon_z_sign:
  assumes "0 < n" "w \<noteq> real n * (real n + 1) / 4"
  shows "wilcoxon_z w n =
     Fin ((w - real n * (real n + 1) / 4 - sgn (w - real n * (real n + 1) / 4) * 0.5)
          / sqrt (real n * (real n + 1) * (2 * real n + 1) / 24))"
proof -
  have "0 < real n * (real n + 1) * (2 * real n + 1) / 24" using assms(1) by simp
  then show ?thesis
    using assms by (simp add: wilcoxon_z_def Let_def not_less sgn_if)
qed

text \<open>
  C3, at \<open>a = [1, 2, 0]\<close>, \<open>b = [0, 0, 3]\<close>: the differences are \<open>[1, 2, -3]\<close>,
  so \<open>n = 3\<close> and \<open>W+ = 1 + 2 = 3 = n (n + 1) / 4\<close>. The correction term of the
  code is \<open>wPlus > expectedW ? 0.5 : -0.5\<close>, which is \<open>-0.5\<close> here, and \<open>z\<close> is
  \<open>0.5 / sqrt Var\<close>, not 0.
\<close>

theorem C3_zero_sign_case:
  "w_W (wilcoxonSignedRank [1, 2, 0] [0, 0, 3]) = Fin 3
   \<and> w_n (wilcoxonSignedRank [1, 2, 0] [0, 0, 3]) = 3
   \<and> (3 :: real) * (3 + 1) / 4 = 3
   \<and> w_z (wilcoxonSignedRank [1, 2, 0] [0, 0, 3]) = Fin (0.5 / sqrt (3 * (3 + 1) * (2 * 3 + 1) / 24))
   \<and> w_z (wilcoxonSignedRank [1, 2, 0] [0, 0, 3]) \<noteq> Fin 0"
  by (simp add: wilcoxonSignedRank_def diffs_def nonZero_def List.map_filter_def eps_def
        mk_items_def Let_def upt_rec tie_run_def wPlus_of_def wilcoxon_z_def)

section \<open>Normality check: the statistic on finite data\<close>

lemma npow2_ndiv_sqrt:
  "0 < S \<Longrightarrow> npow2 (ndiv (Fin x) (nsqrt (Fin S))) = Fin (x\<^sup>2 / S)"
  by (simp add: npow2_def not_less power2_eq_square)

lemma shapiro_W_Fin:
  assumes "data \<noteq> []"
    and "0 < (\<Sum>v\<leftarrow>data. (v - sum_list data / real (length data))\<^sup>2)"
  shows "sh_W (shapiroWilkTest data) =
           Fin ((sw_numerator (sort data))\<^sup>2 / (\<Sum>v\<leftarrow>data. (v - sum_list data / real (length data))\<^sup>2))"
  unfolding shapiroWilkTest_def Let_def mean_Fin [OF assms(1)] sq_dev_Fin npow2_ndiv_sqrt [OF assms(2)]
  by simp

lemma shapiro_p: "sh_p (shapiroWilkTest data) = sw_p (sh_W (shapiroWilkTest data))"
  by (simp add: shapiroWilkTest_def Let_def)

lemma shapiro_p_low: "sh_p (shapiroWilkTest [0, 1, 4]) = 0.01"
proof -
  have "sh_W (shapiroWilkTest [0, 1, 4]) = Fin ((2.2956)\<^sup>2 / (26 / 3))"
    by (subst shapiro_W_Fin) (simp_all add: sw_numerator_def sw_a_def upt_rec power2_eq_square)
  then show ?thesis by (simp add: shapiro_p sw_p_def power2_eq_square)
qed

lemma shapiro_p_high:
  "sh_p (shapiroWilkTest [- 5739, - 3291, - 2141, 2141, 3291, 5739]) = 0.7"
proof -
  have "sh_W (shapiroWilkTest [- 5739, - 3291, - 2141, 2141, 3291, 5739])
          = Fin ((9670.1366)\<^sup>2 / 96701366)"
    by (subst shapiro_W_Fin) (simp_all add: sw_numerator_def sw_a_def upt_rec power2_eq_square)
  then show ?thesis by (simp add: shapiro_p sw_p_def power2_eq_square)
qed

section \<open>Normality check: the numerator as a sum\<close>



section \<open>Cohen's d and the choice of the main test\<close>

lemma nsqrt_ndiv_Fin:
  "0 \<le> S \<Longrightarrow> 0 < n \<Longrightarrow> nsqrt (ndiv (Fin S) (Fin n)) = Fin (sqrt (S / n))"
  by (simp add: not_less)

lemma cohensD_Fin:
  assumes "length a = length b" "a \<noteq> []"
  shows "cohensD a b =
     ndiv (Fin (sum_list (map2 (-) a b) / real (length a)))
          (Fin (sqrt ((\<Sum>x\<leftarrow>map2 (-) a b. (x - sum_list (map2 (-) a b) / real (length a))\<^sup>2)
                      / real (length a))))"
proof -
  define d where "d = map2 (-) a b"
  have ne: "d \<noteq> []" using assms unfolding d_def by (cases a; cases b) auto
  have len: "length d = length a" using assms by (simp add: d_def)
  have ds: "diffs a b = map Fin d"
    unfolding d_def by (rule diffs_same_length [OF assms(1)])
  have pos: "0 < real (length a)" using assms(2) by simp
  have "cohensD a b =
      ndiv (Fin (sum_list d / real (length a)))
        (nsqrt (ndiv (Fin (\<Sum>x\<leftarrow>d. (x - sum_list d / real (length a))\<^sup>2)) (Fin (real (length a)))))"
    unfolding cohensD_def ds Let_def mean_Fin [OF ne] sq_dev_Fin
    by (simp only: length_map len)
  also have "nsqrt (ndiv (Fin (\<Sum>x\<leftarrow>d. (x - sum_list d / real (length a))\<^sup>2)) (Fin (real (length a))))
      = Fin (sqrt ((\<Sum>x\<leftarrow>d. (x - sum_list d / real (length a))\<^sup>2) / real (length a)))"
    by (rule nsqrt_ndiv_Fin [OF sum_list_sq_nonneg pos])
  finally show ?thesis unfolding d_def .
qed

text \<open>
  C7. For series \<open>a\<close>, \<open>b\<close> of the same length \<open>n \<ge> 2\<close>, with
  \<open>d = a - b\<close> and \<open>m\<close> the mean of \<open>d\<close>, Cohen's d is \<open>m\<close> divided by
  \<open>sqrt (\<Sum>(d\<^sub>i - m)\<^sup>2 / n)\<close>, the denominator with the uncorrected \<open>n\<close>. For
  \<open>d = [3, 1]\<close> this is \<open>2\<close>, while the mean over the Bessel-corrected \<open>std\<close>
  is \<open>2 / sqrt 2\<close>.
\<close>

theorem C7_cohens_d:
  "(length a = length b \<and> 2 \<le> length a \<longrightarrow>
     (let d = map2 (-) a b;
          n = real (length d);
          m = sum_list d / n;
          sd = sqrt ((\<Sum>x\<leftarrow>d. (x - m)\<^sup>2) / n)
      in cohensD a b = ndiv (Fin m) (Fin sd)
         \<and> (sd \<noteq> 0 \<longrightarrow> cohensD a b = Fin (m / sd))))
   \<and> cohensD [3, 1] [0, 0] = Fin 2
   \<and> ndiv (mean (map Fin [3, 1])) (std (map Fin [3, 1])) = Fin (2 / sqrt 2)"
proof -
  have gen: "length a = length b \<and> 2 \<le> length a \<longrightarrow>
     (let d = map2 (-) a b;
          n = real (length d);
          m = sum_list d / n;
          sd = sqrt ((\<Sum>x\<leftarrow>d. (x - m)\<^sup>2) / n)
      in cohensD a b = ndiv (Fin m) (Fin sd)
         \<and> (sd \<noteq> 0 \<longrightarrow> cohensD a b = Fin (m / sd)))"
  proof
    assume h: "length a = length b \<and> 2 \<le> length a"
    then have ne: "a \<noteq> []" by auto
    from h have len: "length (map2 (-) a b) = length a" by simp
    show "let d = map2 (-) a b;
          n = real (length d);
          m = sum_list d / n;
          sd = sqrt ((\<Sum>x\<leftarrow>d. (x - m)\<^sup>2) / n)
      in cohensD a b = ndiv (Fin m) (Fin sd)
         \<and> (sd \<noteq> 0 \<longrightarrow> cohensD a b = Fin (m / sd))"
      unfolding Let_def len cohensD_Fin [OF conjunct1 [OF h] ne] by simp
  qed
  have ex1: "cohensD [3, 1] [0, 0] = Fin 2"
    using cohensD_Fin [of "[3, 1]" "[0, 0]"] by (simp add: power2_eq_square)
  have ex2: "ndiv (mean (map Fin [3, 1])) (std (map Fin [3, 1])) = Fin (2 / sqrt 2)"
    using std_Fin [of "[3, 1]"] mean_Fin [of "[3, 1]"] by (simp add: power2_eq_square)
  from gen ex1 ex2 show ?thesis by blast
qed

theorem C7_cohens_d_witness:
  "length [3, 1 :: real] = length [0, 0 :: real] \<and> 2 \<le> length [3, 1 :: real]
   \<and> sqrt (((3 - 2)\<^sup>2 + (1 - 2)\<^sup>2) / 2) \<noteq> (0 :: real)
   \<and> cohensD [3, 1] [0, 0] = Fin (2 / sqrt (((3 - 2)\<^sup>2 + (1 - 2)\<^sup>2) / 2))"
  using C7_cohens_d [of "[3, 1]" "[0, 0]"]
  by (simp add: Let_def)

text \<open>
  C4. For a non-empty list of participant records, with \<open>p\<close> the p-value of the
  normality check on the delta series: if \<open>p > 0.05\<close> the result is tagged as the
  t-test and holds the paired t-test of the C1 and C2 series with Cohen's d as effect
  size; otherwise it is tagged as the Wilcoxon test and holds the signed-rank test with
  the effect size \<open>z / sqrt N\<close>, \<open>N\<close> the number of participant records.
\<close>

theorem C4_main_test:
  "rows \<noteq> [] \<longrightarrow>
     (let c1 = map C1 rows; c2 = map C2 rows;
          p = sh_p (shapiroWilkTest (map delta rows))
      in (p > 0.05 \<longrightarrow>
            mainTest rows (shapiro rows) =
              Some (T_test (pairedTTest c1 c2) (cohensD c1 c2)))
       \<and> (\<not> p > 0.05 \<longrightarrow>
            mainTest rows (shapiro rows) =
              Some (Wilcoxon_test (wilcoxonSignedRank c1 c2)
                     (ndiv (w_z (wilcoxonSignedRank c1 c2))
                           (Fin (sqrt (real (length rows))))))))"
  by (simp add: mainTest_def shapiro_def Let_def)

theorem C4_main_test_witness:
  "[\<lparr>participant = ''P1'', C1 = 1, C2 = 1, delta = 0\<rparr>,
    \<lparr>participant = ''P2'', C1 = 2, C2 = 1, delta = 1\<rparr>,
    \<lparr>participant = ''P3'', C1 = 5, C2 = 1, delta = 4\<rparr>] \<noteq> []
   \<and> \<not> sh_p (shapiroWilkTest [0, 1, 4]) > 0.05
   \<and> mainTest [\<lparr>participant = ''P1'', C1 = 1, C2 = 1, delta = 0\<rparr>,
               \<lparr>participant = ''P2'', C1 = 2, C2 = 1, delta = 1\<rparr>,
               \<lparr>participant = ''P3'', C1 = 5, C2 = 1, delta = 4\<rparr>]
        (shapiro [\<lparr>participant = ''P1'', C1 = 1, C2 = 1, delta = 0\<rparr>,
               \<lparr>participant = ''P2'', C1 = 2, C2 = 1, delta = 1\<rparr>,
               \<lparr>participant = ''P3'', C1 = 5, C2 = 1, delta = 4\<rparr>])
       = Some (Wilcoxon_test (wilcoxonSignedRank [1, 2, 5] [1, 1, 1])
                 (ndiv (w_z (wilcoxonSignedRank [1, 2, 5] [1, 1, 1])) (Fin (sqrt 3))))
   \<and> w_n (wilcoxonSignedRank [1, 2, 5] [1, 1, 1]) = 2
   \<and> sh_p (shapiroWilkTest [- 5739, - 3291, - 2141, 2141, 3291, 5739]) > 0.05
   \<and> mainTest (map (\<lambda>v. \<lparr>participant = ''P'', C1 = v, C2 = 0, delta = v\<rparr>)
                 [- 5739, - 3291, - 2141, 2141, 3291, 5739])
        (shapiro (map (\<lambda>v. \<lparr>participant = ''P'', C1 = v, C2 = 0, delta = v\<rparr>)
                 [- 5739, - 3291, - 2141, 2141, 3291, 5739]))
       = Some (T_test (pairedTTest [- 5739, - 3291, - 2141, 2141, 3291, 5739] [0, 0, 0, 0, 0, 0])
                      (cohensD [- 5739, - 3291, - 2141, 2141, 3291, 5739] [0, 0, 0, 0, 0, 0]))"
proof -
  have n: "w_n (wilcoxonSignedRank [1, 2, 5] [1, 1, 1]) = 2"
    by (simp add: wilcoxonSignedRank_def diffs_def nonZero_def List.map_filter_def eps_def Let_def)
  show ?thesis
    using C4_main_test [of "[\<lparr>participant = ''P1'', C1 = 1, C2 = 1, delta = 0\<rparr>,
               \<lparr>participant = ''P2'', C1 = 2, C2 = 1, delta = 1\<rparr>,
               \<lparr>participant = ''P3'', C1 = 5, C2 = 1, delta = 4\<rparr>]"]
      C4_main_test [of "map (\<lambda>v. \<lparr>participant = ''P'', C1 = v, C2 = 0, delta = v\<rparr>)
                 [- 5739, - 3291, - 2141, 2141, 3291, 5739]"]
    by (simp add: Let_def shapiro_p_low shapiro_p_high n)
qed

section \<open>Normality check: sign and ladder of the statistic\<close>







section \<open>Spearman correlation: ranks and range\<close>

lemma length_ranks: "length (ranks arr) = length arr"
  by (simp add: ranks_def Let_def)

lemma map_snd_numbered:
  "map snd (map (\<lambda>(d, i). (d, i + 1)) (zip xs [0 ..< length xs])) = map Suc [0 ..< length xs]"
proof -
  have "map snd (map (\<lambda>(d, i). (d, i + 1)) zs) = map Suc (map snd zs)" for zs :: "('a \<times> nat) list"
    by (induction zs) auto
  then show ?thesis by (simp only: map_snd_zip length_upt diff_zero)
qed

lemma mset_ranks: "mset (ranks arr) = mset (map Suc [0 ..< length arr])"
proof -
  define byValue where "byValue = sort_key fst (zip arr [0 ..< length arr])"
  define numbered where "numbered = map (\<lambda>(d, i). (d, i + 1)) (zip byValue [0 ..< length byValue])"
  have len: "length byValue = length arr" by (simp add: byValue_def)
  have "ranks arr = map snd (sort_key (\<lambda>(d, r). snd d) numbered)"
    by (simp add: ranks_def Let_def byValue_def numbered_def)
  then have "mset (ranks arr) = mset (map snd numbered)"
    by simp
  also have "map snd numbered = map Suc [0 ..< length byValue]"
    unfolding numbered_def by (rule map_snd_numbered)
  finally show ?thesis by (simp only: len)
qed

lemma perm_sum_list:
  fixes g :: "'a \<Rightarrow> real"
  assumes "mset xs = mset ys"
  shows "(\<Sum>x\<leftarrow>xs. g x) = (\<Sum>x\<leftarrow>ys. g x)"
proof -
  have "sum_mset (mset (map g xs)) = sum_mset (mset (map g ys))"
    using assms by simp
  then show ?thesis by (simp only: sum_mset_sum_list)
qed

lemma sum_list_ranks:
  "(\<Sum>r\<leftarrow>ranks arr. g r) = (\<Sum>j<length arr. g (Suc j))" for g :: "nat \<Rightarrow> real"
proof -
  have "(\<Sum>r\<leftarrow>ranks arr. g r) = (\<Sum>r\<leftarrow>map Suc [0 ..< length arr]. g r)"
    by (rule perm_sum_list [OF mset_ranks])
  also have "\<dots> = (\<Sum>j\<leftarrow>[0 ..< length arr]. g (Suc j))"
    by (simp add: comp_def)
  also have "\<dots> = (\<Sum>j<length arr. g (Suc j))"
    by (simp add: sum_list_distinct_conv_sum_set lessThan_atLeast0)
  finally show ?thesis .
qed


lemma reduce_sum_map: "reduce_sum f (map h xs) = reduce_sum (\<lambda>v. f (h v)) xs"
  by (simp add: reduce_sum_def foldl_map)

lemma sum_Suc_real: "(\<Sum>j<n. real (Suc j)) = real n * (real n + 1) / 2"
  by (induction n) (simp_all add: field_simps)

lemma mean_ranks:
  assumes "arr \<noteq> []"
  shows "mean (map (\<lambda>r. Fin (real r)) (ranks arr)) = Fin ((real (length arr) + 1) / 2)"
proof -
  have "reduce_sum (\<lambda>v. v) (map (\<lambda>r. Fin (real r)) (ranks arr)) = Fin (\<Sum>r\<leftarrow>ranks arr. real r)"
    unfolding reduce_sum_map by (rule reduce_sum_Fin)
  also have "(\<Sum>r\<leftarrow>ranks arr. real r) = real (length arr) * (real (length arr) + 1) / 2"
    by (simp only: sum_list_ranks sum_Suc_real)
  finally show ?thesis using assms by (simp add: mean_def length_ranks)
qed

lemma sq_dev_ranks:
  "sq_dev (map (\<lambda>r. Fin (real r)) (ranks arr)) (Fin ((real (length arr) + 1) / 2))
     = Fin (rank_var (length arr))"
proof -
  have "sq_dev (map (\<lambda>r. Fin (real r)) (ranks arr)) (Fin m) = Fin (\<Sum>r\<leftarrow>ranks arr. (real r - m)\<^sup>2)" for m
    unfolding sq_dev_def reduce_sum_map
    by (simp add: npow2_def nsub_def power2_eq_square reduce_sum_Fin)
  then show ?thesis by (simp only: sum_list_ranks rank_var_def)
qed

lemma rank_var_pos:
  assumes "2 \<le> n"
  shows "0 < rank_var n"
proof -
  have "0 < (real (Suc 0) - (real n + 1) / 2)\<^sup>2" using assms by simp
  also have "\<dots> \<le> rank_var n"
    unfolding rank_var_def
    by (rule member_le_sum [of 0 _ "\<lambda>j. (real (Suc j) - (real n + 1) / 2)\<^sup>2"]) (use assms in auto)
  finally show ?thesis .
qed

lemma cov_ranks:
  assumes "length x = length y"
  shows "reduce_sum (\<lambda>(r, s). nmul (nsub r (Fin m))
            (nsub (case s of Some s' \<Rightarrow> s' | None \<Rightarrow> NaN) (Fin m')))
          (paired (map (\<lambda>r. Fin (real r)) (ranks x)) (map (\<lambda>r. Fin (real r)) (ranks y)))
         = Fin (\<Sum>(r, s)\<leftarrow>zip (ranks x) (ranks y). (real r - m) * (real s - m'))"
proof -
  have len: "length (map (\<lambda>r. Fin (real r)) (ranks x)) = length (map (\<lambda>r. Fin (real r)) (ranks y))"
    using assms by (simp add: length_ranks)
  have "reduce_sum (\<lambda>(r, s). nmul (nsub r (Fin m))
            (nsub (case s of Some s' \<Rightarrow> s' | None \<Rightarrow> NaN) (Fin m')))
          (map (\<lambda>(a, b). (a, Some b)) (map (\<lambda>(a, b). (Fin (real a), Fin (real b))) (zip (ranks x) (ranks y))))
        = Fin (\<Sum>(r, s)\<leftarrow>zip (ranks x) (ranks y). (real r - m) * (real s - m'))"
    unfolding reduce_sum_map
    by (simp add: case_prod_unfold nsub_def reduce_sum_Fin)
  then show ?thesis
    unfolding paired_same_length [OF len] zip_map_map .
qed

lemma sum_list_neg: "(\<Sum>x\<leftarrow>xs. - f x) = - (\<Sum>x\<leftarrow>xs. f x)" for f :: "'a \<Rightarrow> real"
  by (induction xs) simp_all

lemma cov_upper:
  fixes a b :: "'a \<Rightarrow> real"
  assumes "length rs = length ss"
    and "(\<Sum>r\<leftarrow>rs. (a r)\<^sup>2) = V" and "(\<Sum>s\<leftarrow>ss. (b s)\<^sup>2) = V"
  shows "(\<Sum>(r, s)\<leftarrow>zip rs ss. a r * b s) \<le> V"
proof -
  let ?c = "\<Sum>(r, s)\<leftarrow>zip rs ss. a r * b s"
  have sq: "(\<Sum>(r, s)\<leftarrow>zip rs ss. (a r)\<^sup>2 + (b s)\<^sup>2) = V + V"
  proof -
    have "(\<Sum>(r, s)\<leftarrow>zip rs ss. (a r)\<^sup>2 + (b s)\<^sup>2)
        = (\<Sum>r\<leftarrow>map fst (zip rs ss). (a r)\<^sup>2) + (\<Sum>s\<leftarrow>map snd (zip rs ss). (b s)\<^sup>2)"
      by (simp add: case_prod_unfold sum_list_addf comp_def)
    then show ?thesis using assms by simp
  qed
  have up: "(\<Sum>(r, s)\<leftarrow>zip rs ss. 2 * (a r * b s)) \<le> (\<Sum>(r, s)\<leftarrow>zip rs ss. (a r)\<^sup>2 + (b s)\<^sup>2)"
    by (rule sum_list_mono) (use sum_squares_bound in \<open>auto simp: mult.assoc\<close>)
  have "(\<Sum>(r, s)\<leftarrow>zip rs ss. 2 * (a r * b s)) = 2 * ?c"
    by (simp add: case_prod_unfold sum_list_const_mult)
  with up sq show ?thesis by simp
qed

lemma cov_bound:
  fixes a :: "'a \<Rightarrow> real"
  assumes "length rs = length ss"
    and "(\<Sum>r\<leftarrow>rs. (a r)\<^sup>2) = V" and "(\<Sum>s\<leftarrow>ss. (a s)\<^sup>2) = V"
  shows "\<bar>\<Sum>(r, s)\<leftarrow>zip rs ss. a r * a s\<bar> \<le> V"
proof -
  have up: "(\<Sum>(r, s)\<leftarrow>zip rs ss. a r * a s) \<le> V"
    by (rule cov_upper [OF assms])
  have "(\<Sum>(r, s)\<leftarrow>zip rs ss. a r * (- a s)) \<le> V"
    by (rule cov_upper [OF assms(1,2)]) (simp add: assms(3))
  then have "- (\<Sum>(r, s)\<leftarrow>zip rs ss. a r * a s) \<le> V"
    by (simp add: case_prod_unfold sum_list_neg)
  with up show ?thesis by (simp add: abs_le_iff)
qed

lemma spearman_Fin:
  assumes "length x = length y" "2 \<le> length x"
  shows "\<exists>\<rho>. spearmanCorrelation x y = Fin \<rho> \<and> - 1 \<le> \<rho> \<and> \<rho> \<le> 1"
proof -
  define n where "n = length x"
  define m where "m = (real n + 1) / 2"
  define V where "V = rank_var n"
  define c where "c = (\<Sum>(r, s)\<leftarrow>zip (ranks x) (ranks y). (real r - m) * (real s - m))"
  have nx: "x \<noteq> []" and ny: "y \<noteq> []" using assms by auto
  have Vpos: "0 < V" unfolding V_def n_def by (rule rank_var_pos [OF assms(2)])
  have mx: "mean (map (\<lambda>r. Fin (real r)) (ranks x)) = Fin m"
    unfolding m_def n_def by (rule mean_ranks [OF nx])
  have my: "mean (map (\<lambda>r. Fin (real r)) (ranks y)) = Fin m"
    unfolding m_def n_def assms(1) by (rule mean_ranks [OF ny])
  have vx: "sq_dev (map (\<lambda>r. Fin (real r)) (ranks x)) (Fin m) = Fin V"
    unfolding m_def n_def V_def by (rule sq_dev_ranks)
  have vy: "sq_dev (map (\<lambda>r. Fin (real r)) (ranks y)) (Fin m) = Fin V"
    unfolding m_def n_def V_def assms(1) by (rule sq_dev_ranks)
  have "spearmanCorrelation x y = ndiv (Fin c) (nsqrt (nmul (Fin V) (Fin V)))"
    unfolding spearmanCorrelation_def Let_def mx my vx vy cov_ranks [OF assms(1)] c_def ..
  also have "\<dots> = Fin (c / V)" using Vpos by (simp add: not_less)
  finally have eq: "spearmanCorrelation x y = Fin (c / V)" .
  have sx: "(\<Sum>r\<leftarrow>ranks x. (real r - m)\<^sup>2) = V"
    unfolding m_def n_def V_def rank_var_def by (simp only: sum_list_ranks)
  have sy: "(\<Sum>r\<leftarrow>ranks y. (real r - m)\<^sup>2) = V"
    unfolding m_def n_def V_def rank_var_def assms(1) by (simp only: sum_list_ranks)
  have "\<bar>c\<bar> \<le> V"
    unfolding c_def
    by (rule cov_bound [where a = "\<lambda>r. real r - m", OF _ sx sy]) (simp add: length_ranks assms(1))
  with Vpos have "- 1 \<le> c / V \<and> c / V \<le> 1"
    by (simp add: abs_le_iff field_simps)
  with eq show ?thesis by blast
qed

lemma spearman_short:
  assumes "length x = length y" "length x \<le> 1"
  shows "spearmanCorrelation x y = NaN"
proof (cases x)
  case Nil
  with assms have "y = []" by simp
  with Nil show ?thesis
    by (simp add: spearmanCorrelation_def ranks_def mean_def reduce_sum_def sq_dev_def)
next
  case (Cons a xs)
  with assms obtain b where "x = [a]" "y = [b]" by (cases y; cases xs) auto
  then show ?thesis
    by (simp add: spearmanCorrelation_def ranks_def mean_def reduce_sum_def sq_dev_def
         npow2_def nsub_def)
qed

lemma rank_position:
  assumes "i < length arr"
  shows "\<exists>p < length arr. ranks arr ! i = Suc p
           \<and> sort_key fst (zip arr [0 ..< length arr]) ! p = (arr ! i, i)"
proof -
  define n where "n = length arr"
  define byValue where "byValue = sort_key fst (zip arr [0 ..< n])"
  define numbered where "numbered = map (\<lambda>(d, i). (d, i + 1)) (zip byValue [0 ..< length byValue])"
  define byIndex where "byIndex = sort_key (\<lambda>(d, r). snd d) numbered"
  have lenV: "length byValue = n" by (simp add: byValue_def n_def)
  have lenN: "length numbered = n" by (simp add: numbered_def lenV)
  have lenI: "length byIndex = n" by (simp add: byIndex_def lenN)
  have ranks: "ranks arr = map snd byIndex"
    by (simp add: ranks_def Let_def byValue_def numbered_def byIndex_def n_def)
  have keysN: "map (\<lambda>(d, r). snd d) numbered = map snd byValue"
    unfolding numbered_def
    by (rule nth_equalityI) (simp_all add: lenV)
  have "mset (map snd byValue) = mset (map snd (zip arr [0 ..< n]))"
    unfolding byValue_def by (simp only: mset_map mset_sort)
  also have "map snd (zip arr [0 ..< n]) = [0 ..< n]" by (simp add: n_def)
  finally have msV: "mset (map snd byValue) = mset [0 ..< n]" .
  have "mset (map (\<lambda>(d, r). snd d) byIndex) = mset (map (\<lambda>(d, r). snd d) numbered)"
    unfolding byIndex_def by (simp only: mset_map mset_sort)
  then have "mset (map (\<lambda>(d, r). snd d) byIndex) = mset [0 ..< n]"
    by (simp only: keysN msV)
  moreover have "sorted (map (\<lambda>(d, r). snd d) byIndex)"
    unfolding byIndex_def by simp
  ultimately have "sort [0 ..< n] = map (\<lambda>(d, r). snd d) byIndex"
    by (intro properties_for_sort)
  then have keysI: "map (\<lambda>(d, r). snd d) byIndex = [0 ..< n]"
    by (simp add: sort_key_id_if_sorted)
  from assms have i: "i < n" by (simp add: n_def)
  have idx: "snd (fst (byIndex ! i)) = i"
  proof -
    have "map (\<lambda>(d, r). snd d) byIndex ! i = [0 ..< n] ! i" by (simp only: keysI)
    with i show ?thesis by (simp add: lenI case_prod_unfold)
  qed
  have "byIndex ! i \<in> set numbered"
    using i lenI by (metis byIndex_def nth_mem set_sort)
  then obtain p where p: "p < n" and e: "byIndex ! i = numbered ! p"
    by (metis in_set_conv_nth lenN)
  have np: "numbered ! p = (byValue ! p, Suc p)"
    using p by (simp add: numbered_def lenV)
  have "byValue ! p \<in> set (zip arr [0 ..< n])"
    using p lenV by (metis byValue_def nth_mem set_sort)
  then obtain q where q: "q < n" and bq: "byValue ! p = (arr ! q, q)"
    by (auto simp: in_set_zip n_def)
  from idx e np bq have "q = i" by simp
  with e np bq have "ranks arr ! i = Suc p" "byValue ! p = (arr ! i, i)"
    using i by (simp_all add: ranks lenI)
  with p show ?thesis unfolding byValue_def n_def by blast
qed

lemma ranks_monotone:
  assumes "i < length arr" "j < length arr" "arr ! i < arr ! j"
  shows "ranks arr ! i < ranks arr ! j"
proof -
  let ?bv = "sort_key fst (zip arr [0 ..< length arr])"
  from rank_position [OF assms(1)] obtain p where
    p: "p < length arr" "ranks arr ! i = Suc p" "?bv ! p = (arr ! i, i)" by blast
  from rank_position [OF assms(2)] obtain q where
    q: "q < length arr" "ranks arr ! j = Suc q" "?bv ! q = (arr ! j, j)" by blast
  have srt: "sorted (map fst ?bv)" by simp
  have len: "length ?bv = length arr" by simp
  show ?thesis
  proof (rule ccontr)
    assume "\<not> ranks arr ! i < ranks arr ! j"
    with p q have "q \<le> p" by simp
    with srt p(1) len have "map fst ?bv ! q \<le> map fst ?bv ! p"
      by (intro sorted_nth_mono) simp_all
    with p q have "arr ! j \<le> arr ! i" by simp
    with assms(3) show False by simp
  qed
qed

lemma spearman_value:
  assumes "length x = length y" "2 \<le> length x"
  shows "spearmanCorrelation x y =
     Fin ((\<Sum>(r, s)\<leftarrow>zip (ranks x) (ranks y).
             (real r - (real (length x) + 1) / 2) * (real s - (real (length x) + 1) / 2))
          / rank_var (length x))"
proof -
  define m where "m = (real (length x) + 1) / 2"
  define V where "V = rank_var (length x)"
  have nx: "x \<noteq> []" and ny: "y \<noteq> []" using assms by auto
  have Vpos: "0 < V" unfolding V_def by (rule rank_var_pos [OF assms(2)])
  have mx: "mean (map (\<lambda>r. Fin (real r)) (ranks x)) = Fin m"
    unfolding m_def by (rule mean_ranks [OF nx])
  have my: "mean (map (\<lambda>r. Fin (real r)) (ranks y)) = Fin m"
    unfolding m_def assms(1) by (rule mean_ranks [OF ny])
  have vx: "sq_dev (map (\<lambda>r. Fin (real r)) (ranks x)) (Fin m) = Fin V"
    unfolding m_def V_def by (rule sq_dev_ranks)
  have vy: "sq_dev (map (\<lambda>r. Fin (real r)) (ranks y)) (Fin m) = Fin V"
    unfolding m_def V_def assms(1) by (rule sq_dev_ranks)
  have "spearmanCorrelation x y =
      ndiv (Fin (\<Sum>(r, s)\<leftarrow>zip (ranks x) (ranks y). (real r - m) * (real s - m)))
           (nsqrt (nmul (Fin V) (Fin V)))"
    unfolding spearmanCorrelation_def Let_def mx my vx vy cov_ranks [OF assms(1)] ..
  also have "\<dots> = Fin ((\<Sum>(r, s)\<leftarrow>zip (ranks x) (ranks y). (real r - m) * (real s - m)) / V)"
    using Vpos by (simp add: not_less)
  finally show ?thesis unfolding m_def V_def .
qed

lemma spearman_inverse: "spearmanCorrelation [1, 2, 3, 4, 5] [5, 4, 3, 2, 1] = Fin (- 1)"
  by (subst spearman_value) (simp_all add: ranks_def upt_rec rank_var_def lessThan_Suc eval_nat_numeral power2_eq_square)

text \<open>
  C2 (as the code has it). The ranks of a series are the numbers \<open>1, ..., n\<close>, each
  once: an element gets the position of its value in the stably sorted series, a
  smaller value a smaller rank, and tied values get distinct consecutive ranks, not
  their average (\<open>[5, 5, 5]\<close> is ranked \<open>[1, 2, 3]\<close>). Hence for two series of the
  same length \<open>n \<ge> 2\<close> the coefficient is a finite number in \<open>[-1, 1]\<close>, also when
  a series is constant; it is \<open>NaN\<close> (\<open>0 / 0\<close>) exactly for \<open>n \<le> 1\<close>. For
  \<open>x = [1, 2, 3, 4, 5]\<close> and \<open>y = [5, 4, 3, 2, 1]\<close> it is \<open>-1\<close>.
\<close>

theorem C2_spearman:
  "(length x = length y \<and> 2 \<le> length x \<longrightarrow>
      (\<exists>\<rho>. spearmanCorrelation x y = Fin \<rho> \<and> - 1 \<le> \<rho> \<and> \<rho> \<le> 1))
   \<and> (length x = length y \<and> length x \<le> 1 \<longrightarrow> spearmanCorrelation x y = NaN)
   \<and> mset (ranks arr) = mset [1 ..< Suc (length arr)]
   \<and> (\<forall>i < length arr. \<forall>j < length arr. arr ! i < arr ! j \<longrightarrow> ranks arr ! i < ranks arr ! j)
   \<and> ranks [5, 5, 5] = [1, 2, 3]
   \<and> spearmanCorrelation [1, 2, 3, 4, 5] [5, 4, 3, 2, 1] = Fin (- 1)"
proof -
  have perm: "mset (ranks arr) = mset [1 ..< Suc (length arr)]"
    by (simp only: mset_ranks map_Suc_upt One_nat_def)
  have ties: "ranks [5, 5, 5] = [1, 2, 3]"
    by (simp add: ranks_def upt_rec)
  from spearman_Fin [of x y] spearman_short [of x y] perm ranks_monotone [of _ arr] ties
    spearman_inverse
  show ?thesis by blast
qed

theorem C2_spearman_witness:
  "length [1, 2, 3, 4, 5 :: real] = length [5, 4, 3, 2, 1 :: real]
   \<and> 2 \<le> length [1, 2, 3, 4, 5 :: real]
   \<and> (\<exists>\<rho>. spearmanCorrelation [1, 2, 3, 4, 5] [5, 4, 3, 2, 1] = Fin \<rho> \<and> - 1 \<le> \<rho> \<and> \<rho> \<le> 1)
   \<and> length [4 :: real] = length [9 :: real] \<and> length [4 :: real] \<le> 1
   \<and> spearmanCorrelation [4] [9] = NaN
   \<and> (0 :: nat) < length [2, 7, 2, 1 :: real] \<and> (3 :: nat) < length [2, 7, 2, 1 :: real]
   \<and> [2, 7, 2, 1 :: real] ! 3 < [2, 7, 2, 1] ! 0
   \<and> ranks [2, 7, 2, 1] ! 3 < ranks [2, 7, 2, 1] ! 0"
  using C2_spearman [of "[1, 2, 3, 4, 5]" "[5, 4, 3, 2, 1]" "[2, 7, 2, 1]"]
        C2_spearman [of "[4]" "[9]" "[]"]
  by simp

text \<open>
  C2 (as the specification states it) fails: with the constant series \<open>[5, 5]\<close> the
  coefficient is defined, \<open>1\<close>; and for series of length 1 it is \<open>NaN\<close>, outside
  \<open>[-1, 1]\<close>.
\<close>

theorem C2_counterexample:
  "spearmanCorrelation [5, 5] [1, 2] = Fin 1 \<and> spearmanCorrelation [4] [9] = NaN"
proof -
  have "spearmanCorrelation [5, 5] [1, 2] = Fin 1"
    by (subst spearman_value)
       (simp_all add: ranks_def upt_rec rank_var_def lessThan_Suc eval_nat_numeral power2_eq_square)
  moreover have "spearmanCorrelation [4] [9] = NaN"
    by (rule spearman_short) simp_all
  ultimately show ?thesis by simp
qed

section \<open>The normal distribution function: range\<close>

lemma normalCDF_Fin:
  "normalCDF (Fin x) = Fin (if x \<ge> 0 then 1 - tail x else tail x)"
proof -
  have pos: "1 + 0.2316419 * \<bar>x\<bar> \<noteq> 0"
    using abs_ge_zero [of x] by (simp add: add_nonneg_eq_0_iff)
  show ?thesis
    using pos
    by (simp add: normalCDF_def cdf_poly_def tail_def horner_def nsub_def Let_def)
qed

lemma horner_atoms:
  "horner t = 0.3193815 - 0.3565638 * t + 1.781478 * (t * t) - 1.821256 * (t * t * t)
              + 1.330274 * (t * t * t * t)"
  by (simp add: horner_def algebra_simps)

lemma horner_nonneg: "0 \<le> horner t"
proof -
  define a b c where "a = t * t" and "b = t * t * t" and "c = t * t * t * t"
  have a: "0 \<le> a" by (simp add: a_def)
  have "0 \<le> a * (1.330274 * (t - 1821256 / 2660548)\<^sup>2)"
    using a by (intro mult_nonneg_nonneg) simp_all
  also have "a * (1.330274 * (t - 1821256 / 2660548)\<^sup>2)
      = 1.330274 * c - 1.821256 * b + (1.330274 * (1821256 / 2660548)\<^sup>2) * a"
    by (simp add: a_def b_def c_def power2_eq_square algebra_simps)
  finally have A: "0 \<le> 1.330274 * c - 1.821256 * b + (1.330274 * (1821256 / 2660548)\<^sup>2) * a" .
  have "0 \<le> 1.158 * (t - 3565638 / 23160000)\<^sup>2" by simp
  also have "1.158 * (t - 3565638 / 23160000)\<^sup>2
      = 1.158 * a - 0.3565638 * t + 1.158 * (3565638 / 23160000)\<^sup>2"
    by (simp add: a_def power2_eq_square algebra_simps)
  finally have B: "0 \<le> 1.158 * a - 0.3565638 * t + 1.158 * (3565638 / 23160000)\<^sup>2" .
  have "horner t = 0.3193815 - 0.3565638 * t + 1.781478 * a - 1.821256 * b + 1.330274 * c"
    unfolding a_def b_def c_def by (rule horner_atoms)
  moreover have "(1.330274 * (1821256 / 2660548)\<^sup>2) * a \<le> 0.6234 * a"
    by (rule mult_right_mono [OF _ a]) (simp add: power2_eq_square)
  moreover have "1.158 * (3565638 / 23160000)\<^sup>2 \<le> (0.03 :: real)"
    by (simp add: power2_eq_square)
  ultimately show ?thesis using A B a by (simp add: power2_eq_square; linarith)
qed

lemma horner_upper:
  assumes "0 \<le> t" "t \<le> 1"
  shows "t * horner t \<le> 1.2533137"
proof -
  define a b c where "a = t * t" and "b = t * t * t" and "c = t * t * t * t"
  have a: "0 \<le> a" by (simp add: a_def)
  have "c = a * a" by (simp add: a_def c_def)
  then have c: "0 \<le> c" by simp
  have "0 \<le> a * (1 - t)" using assms a by (intro mult_nonneg_nonneg) simp_all
  then have b: "b \<le> a" by (simp add: a_def b_def algebra_simps)
  have h: "0 \<le> 1.2533137 + 0.9339322 * t + 1.290496 * a - 0.490982 * b + 1.330274 * c"
    using a b c assms by (simp; linarith)
  have "0 \<le> (1 - t) * (1.2533137 + 0.9339322 * t + 1.290496 * a - 0.490982 * b + 1.330274 * c)"
    using assms h by (intro mult_nonneg_nonneg) simp_all
  also have "\<dots> = 1.2533137 - t * horner t"
    by (simp add: horner_atoms a_def b_def c_def field_simps)
  finally show ?thesis by simp
qed

lemma tail_bounds: "0 \<le> tail x \<and> tail x \<le> 1 / 2"
proof -
  define t where "t = 1 / (1 + 0.2316419 * \<bar>x\<bar>)"
  define d where "d = 0.3989423 * exp (- x * x / 2)"
  have den: "1 \<le> 1 + 0.2316419 * \<bar>x\<bar>" by simp
  then have t: "0 \<le> t" "t \<le> 1" unfolding t_def by (simp_all add: field_simps)
  have "exp (- x * x / 2) \<le> 1" by (simp add: zero_le_mult_iff)
  then have d: "0 \<le> d" "d \<le> 0.3989423" unfolding d_def by simp_all
  have g: "0 \<le> t * horner t" "t * horner t \<le> 1.2533137"
    using t horner_nonneg [of t] horner_upper [of t] by simp_all
  have eq: "tail x = d * (t * horner t)"
    by (simp add: tail_def Let_def t_def d_def)
  have lo: "0 \<le> d * (t * horner t)" using d g by simp
  have "d * (t * horner t) \<le> 0.3989423 * 1.2533137"
    using d g by (intro mult_mono) simp_all
  also have "\<dots> \<le> (1 / 2 :: real)" by simp
  finally show ?thesis using lo eq by simp
qed

lemma normalCDF_range: "\<exists>c. normalCDF (Fin x) = Fin c \<and> 0 \<le> c \<and> c \<le> 1"
  using tail_bounds [of x] by (simp add: normalCDF_Fin)

lemma normalCDF_PInf: "normalCDF PInf = Fin 1"
  by (simp add: normalCDF_def cdf_poly_def nsub_def Let_def)

lemma normalCDF_NInf: "normalCDF NInf = Fin 0"
  by (simp add: normalCDF_def cdf_poly_def nsub_def Let_def)

lemma two_tailed_Fin:
  "\<exists>q. nmul (Fin 2) (nsub (Fin 1) (normalCDF (Fin \<bar>z\<bar>))) = Fin q \<and> 0 \<le> q \<and> q \<le> 1"
  using tail_bounds [of "\<bar>z\<bar>"] by (simp add: normalCDF_Fin nsub_def)

lemma wilcoxon_z_Fin:
  assumes "0 < n"
  shows "\<exists>z. wilcoxon_z w n = Fin z"
proof -
  have "0 < real n * (real n + 1) * (2 * real n + 1) / 24" using assms by simp
  then show ?thesis using assms by (simp add: wilcoxon_z_def Let_def not_less)
qed

lemma wilcoxon_p_range:
  "\<exists>q. w_p (wilcoxonSignedRank a b) = Fin q \<and> 0 \<le> q \<and> q \<le> 1"
proof (cases "nonZero (diffs a b) = []")
  case True
  then show ?thesis by (simp add: wilcoxonSignedRank_def)
next
  case False
  define n where "n = length (nonZero (diffs a b))"
  define w where "w = wPlus_of (assign_ranks 1 (sort_key it_val (mk_items (nonZero (diffs a b)))))"
  from False have n: "0 < n" by (simp add: n_def)
  from wilcoxon_z_Fin [OF n] obtain z where z: "wilcoxon_z w n = Fin z" by blast
  have "w_p (wilcoxonSignedRank a b) = nmul (Fin 2) (nsub (Fin 1) (normalCDF (nabs (wilcoxon_z w n))))"
    using False by (simp add: wilcoxonSignedRank_def Let_def n_def w_def)
  then have "w_p (wilcoxonSignedRank a b) = nmul (Fin 2) (nsub (Fin 1) (normalCDF (Fin \<bar>z\<bar>)))"
    by (simp add: z)
  with two_tailed_Fin [of z] show ?thesis by simp
qed

section \<open>Wilcoxon signed-rank test: the loop assigns midranks\<close>

lemma tied_refl: "tied x x" by (simp add: tied_def eps_def)

lemma tied_sym: "tied x y \<Longrightarrow> tied y x" by (simp add: tied_def abs_minus_commute)

lemma ties_transitive_iff:
  "ties_transitive vals \<longleftrightarrow>
     (\<forall>x \<in> set vals. \<forall>y \<in> set vals. \<forall>z \<in> set vals. tied x y \<and> tied y z \<longrightarrow> tied x z)"
  by (simp add: ties_transitive_def list_all_iff)

lemma spec_midrank_append:
  "spec_midrank (xs @ ys) v =
     real (length (filter (\<lambda>x. x < v \<and> \<not> tied x v) xs))
     + real (length (filter (\<lambda>x. tied x v) xs)) / 2
     + spec_midrank ys v"
  by (simp add: spec_midrank_def Let_def field_simps)

lemma length_filter_all: "(\<And>x. x \<in> set xs \<Longrightarrow> P x) \<Longrightarrow> length (filter P xs) = length xs"
  by (induction xs) auto

lemma length_filter_none: "(\<And>x. x \<in> set xs \<Longrightarrow> \<not> P x) \<Longrightarrow> length (filter P xs) = 0"
  by (induction xs) auto

lemma tie_run_split:
  assumes srt: "sorted (map it_val (it # its))"
    and tr: "ties_transitive (map it_val (it # its))"
  defines "k \<equiv> tie_run (it # its)"
  shows "\<forall>x \<in> set (take k (it # its)). tied (it_val x) (it_val it)"
    and "\<forall>y \<in> set (drop k (it # its)). \<not> tied (it_val y) (it_val it) \<and> it_val it < it_val y"
proof -
  let ?P = "\<lambda>x. \<bar>it_val x - it_val it\<bar> < eps"
  have k: "k = length (takeWhile ?P (it # its))" by (simp add: k_def tie_run_def)
  have tk: "take k (it # its) = takeWhile ?P (it # its)"
    unfolding k by (rule takeWhile_eq_take [symmetric])
  have dr: "drop k (it # its) = dropWhile ?P (it # its)"
    unfolding k by (rule dropWhile_eq_drop [symmetric])
  show "\<forall>x \<in> set (take k (it # its)). tied (it_val x) (it_val it)"
    unfolding tk tied_def by (auto dest: set_takeWhileD)
  show "\<forall>y \<in> set (drop k (it # its)). \<not> tied (it_val y) (it_val it) \<and> it_val it < it_val y"
  proof
    fix y assume y: "y \<in> set (drop k (it # its))"
    then have "drop k (it # its) \<noteq> []" by auto
    then have ne: "dropWhile ?P (it # its) \<noteq> []" unfolding dr .
    define h where "h = hd (dropWhile ?P (it # its))"
    have nh: "\<not> ?P h" unfolding h_def by (rule hd_dropWhile [OF ne])
    have "h \<in> set (dropWhile ?P (it # its))" unfolding h_def by (rule hd_in_set [OF ne])
    then have hin: "h \<in> set (it # its)" by (rule set_dropWhileD)
    have ge: "it_val it \<le> it_val z" if "z \<in> set (it # its)" for z
      using srt that by auto
    from nh ge [OF hin] have hgap: "it_val it + eps \<le> it_val h" by (simp add: abs_if split: if_splits)
    have sd: "sorted (map it_val (drop k (it # its)))"
      using srt by (simp only: drop_map [symmetric] sorted_wrt_drop)
    have "it_val h \<le> it_val y"
    proof -
      from ne have dk: "drop k (it # its) = h # tl (dropWhile ?P (it # its))"
        unfolding dr h_def by (rule hd_Cons_tl [symmetric])
      from sd [unfolded dk] have "\<forall>z \<in> set (tl (dropWhile ?P (it # its))). it_val h \<le> it_val z"
        by simp
      with y [unfolded dk] show ?thesis by auto
    qed
    with hgap have "it_val it + eps \<le> it_val y" by simp
    moreover have "0 < eps" by (simp add: eps_def)
    ultimately show "\<not> tied (it_val y) (it_val it) \<and> it_val it < it_val y"
      by (simp add: tied_def abs_if)
  qed
qed

lemma assign_ranks_midrank:
  assumes "sorted (map it_val its)" "ties_transitive (map it_val its)"
  shows "assign_ranks rank its =
           map (\<lambda>x. (x, real rank - 1 + spec_midrank (map it_val its) (it_val x))) its"
  using assms
proof (induction rank its rule: assign_ranks.induct)
  case (1 rank)
  show ?case by simp
next
  case (2 rank it its)
  let ?xs = "it # its"
  define k where "k = tie_run ?xs"
  define g where "g = take k ?xs"
  define d where "d = drop k ?xs"
  have xs: "?xs = g @ d" by (simp add: g_def d_def)
  have kle: "k \<le> length ?xs" unfolding k_def by (rule tie_run_le)
  then have lg: "length g = k" by (simp add: g_def)
  note sp = tie_run_split [OF "2.prems", folded k_def, folded g_def d_def]
  have G: "tied (it_val x) (it_val it)" if "x \<in> set g" for x using sp(1) that by blast
  have D: "\<not> tied (it_val y) (it_val it)" "it_val it < it_val y" if "y \<in> set d" for y
    using sp(2) that by blast+
  have gsub: "set g \<subseteq> set ?xs" and dsub: "set d \<subseteq> set ?xs"
    unfolding g_def d_def by (rule set_take_subset, rule set_drop_subset)
  have trans: "tied (it_val x) (it_val z)"
    if "x \<in> set ?xs" "y \<in> set ?xs" "z \<in> set ?xs" "tied (it_val x) (it_val y)" "tied (it_val y) (it_val z)"
    for x y z
  proof -
    from "2.prems"(2) have "\<forall>a \<in> set (map it_val ?xs). \<forall>b \<in> set (map it_val ?xs).
        \<forall>c \<in> set (map it_val ?xs). tied a b \<and> tied b c \<longrightarrow> tied a c"
      by (simp only: ties_transitive_iff)
    moreover have "it_val x \<in> set (map it_val ?xs)" "it_val y \<in> set (map it_val ?xs)"
        "it_val z \<in> set (map it_val ?xs)"
      using that(1-3) by (auto simp del: list.map set_simps)
    ultimately show ?thesis using that(4,5) by blast
  qed
  have itin: "it \<in> set ?xs" by simp
  have gd_le: "it_val u \<le> it_val w" if "u \<in> set g" "w \<in> set d" for u w
  proof -
    from "2.prems"(1) have "sorted (map it_val g @ map it_val d)"
      by (simp only: xs map_append)
    then show ?thesis using that by (auto simp: sorted_append)
  qed
  have gd_nt: "\<not> tied (it_val u) (it_val w)" if "u \<in> set g" "w \<in> set d" for u w
  proof
    assume t: "tied (it_val u) (it_val w)"
    have "tied (it_val it) (it_val u)" using G [OF that(1)] by (rule tied_sym)
    with t have "tied (it_val it) (it_val w)"
      using that gsub dsub itin by (intro trans [of it u w]) auto
    then have "tied (it_val w) (it_val it)" by (rule tied_sym)
    with D(1) [OF that(2)] show False by simp
  qed
  have gg_t: "tied (it_val u) (it_val x)" if "u \<in> set g" "x \<in> set g" for u x
  proof -
    have "tied (it_val it) (it_val x)" using G [OF that(2)] by (rule tied_sym)
    with G [OF that(1)] show ?thesis
      using that gsub itin by (intro trans [of u it x]) auto
  qed
  have sd: "sorted (map it_val d)"
    using "2.prems"(1) unfolding d_def by (simp only: drop_map [symmetric] sorted_wrt_drop)
  have td: "ties_transitive (map it_val d)"
    using "2.prems"(2) dsub unfolding ties_transitive_iff by (auto simp del: list.map set_simps)
  have IH: "assign_ranks (rank + k) d =
      map (\<lambda>x. (x, real (rank + k) - 1 + spec_midrank (map it_val d) (it_val x))) d"
    using "2.IH" [OF k_def refl, folded d_def] sd td by blast
  have mid_g: "spec_midrank (map it_val ?xs) (it_val x) = (real k + 1) / 2" if x: "x \<in> set g" for x
  proof -
    have b1: "length (filter (\<lambda>u. u < it_val x \<and> \<not> tied u (it_val x)) (map it_val g)) = 0"
      by (rule length_filter_none) (use gg_t x in auto)
    have t1: "length (filter (\<lambda>u. tied u (it_val x)) (map it_val g)) = length (map it_val g)"
      by (rule length_filter_all) (use gg_t x in auto)
    have b2: "length (filter (\<lambda>u. u < it_val x \<and> \<not> tied u (it_val x)) (map it_val d)) = 0"
      by (rule length_filter_none) (use gd_le [OF x] in fastforce)
    have t2: "length (filter (\<lambda>u. tied u (it_val x)) (map it_val d)) = 0"
      by (rule length_filter_none) (use gd_nt [OF x] tied_sym in fastforce)
    have "spec_midrank (map it_val d) (it_val x) = 1 / 2"
      by (simp only: spec_midrank_def Let_def b2 t2) simp
    then show ?thesis
      by (simp only: xs map_append spec_midrank_append b1 t1 length_map lg) (simp add: field_simps)
  qed
  have mid_d: "spec_midrank (map it_val ?xs) (it_val x) = real k + spec_midrank (map it_val d) (it_val x)"
    if x: "x \<in> set d" for x
  proof -
    have lt: "u < it_val x \<and> \<not> tied u (it_val x)" if "u \<in> set (map it_val g)" for u
    proof -
      from that obtain y where y: "y \<in> set g" "u = it_val y" by auto
      have nt: "\<not> tied u (it_val x)" unfolding y(2) by (rule gd_nt [OF y(1) x])
      have "u \<le> it_val x" unfolding y(2) by (rule gd_le [OF y(1) x])
      moreover have "u \<noteq> it_val x" using nt tied_refl by auto
      ultimately show ?thesis using nt by simp
    qed
    have b1: "length (filter (\<lambda>u. u < it_val x \<and> \<not> tied u (it_val x)) (map it_val g)) = length (map it_val g)"
      by (rule length_filter_all) (rule lt)
    have t1: "length (filter (\<lambda>u. tied u (it_val x)) (map it_val g)) = 0"
      by (rule length_filter_none) (use lt in blast)
    show ?thesis
      by (simp only: xs map_append spec_midrank_append b1 t1 length_map lg) simp?
  qed
  have "assign_ranks rank ?xs =
      map (\<lambda>x. (x, (real rank + (real rank + real k - 1)) / 2)) g
      @ map (\<lambda>x. (x, real (rank + k) - 1 + spec_midrank (map it_val d) (it_val x))) d"
    by (simp only: assign_ranks.simps Let_def k_def [symmetric] g_def [symmetric] d_def [symmetric] IH)
  also have "map (\<lambda>x. (x, (real rank + (real rank + real k - 1)) / 2)) g
      = map (\<lambda>x. (x, real rank - 1 + spec_midrank (map it_val ?xs) (it_val x))) g"
    by (rule map_cong [OF refl], simp only: mid_g) (simp add: field_simps)
  also have "map (\<lambda>x. (x, real (rank + k) - 1 + spec_midrank (map it_val d) (it_val x))) d
      = map (\<lambda>x. (x, real rank - 1 + spec_midrank (map it_val ?xs) (it_val x))) d"
    by (rule map_cong [OF refl], simp only: mid_d) simp
  finally show ?case by (simp only: xs [symmetric] map_append [symmetric])
qed

lemma spec_midrank_perm:
  assumes "mset xs = mset ys"
  shows "spec_midrank xs v = spec_midrank ys v"
proof -
  have "length (filter P xs) = length (filter P ys)" for P :: "real \<Rightarrow> bool"
  proof -
    have "size (mset (filter P xs)) = size (mset (filter P ys))"
      by (simp only: mset_filter assms)
    then show ?thesis by (simp only: size_mset)
  qed
  then show ?thesis by (simp only: spec_midrank_def)
qed

lemma ties_transitive_set:
  "set xs = set ys \<Longrightarrow> ties_transitive xs = ties_transitive ys"
  by (simp only: ties_transitive_iff)

lemma mk_items_vals: "map it_val (mk_items nz) = map abs nz"
proof -
  have "map it_val (map (\<lambda>(d, idx). \<lparr> it_val = \<bar>d\<bar>, it_sign = (if d > 0 then 1 else - 1), it_idx = idx \<rparr>) zs)
      = map abs (map fst zs)" for zs :: "(real \<times> nat) list"
    by (induction zs) auto
  then show ?thesis by (simp only: mk_items_def map_fst_zip length_upt diff_zero)
qed

lemma sum_positive_items:
  "(\<Sum>x\<leftarrow>filter (\<lambda>x. it_sign x > 0) (mk_items nz). h (it_val x))
     = (\<Sum>d\<leftarrow>filter (\<lambda>d. d > 0) nz. h \<bar>d\<bar>)" for h :: "real \<Rightarrow> real"
proof -
  have "(\<Sum>x\<leftarrow>filter (\<lambda>x. it_sign x > 0)
            (map (\<lambda>(d, idx). \<lparr> it_val = \<bar>d\<bar>, it_sign = (if d > 0 then 1 else - 1), it_idx = idx \<rparr>) zs).
          h (it_val x))
      = (\<Sum>d\<leftarrow>filter (\<lambda>d. d > 0) (map fst zs). h \<bar>d\<bar>)" for zs :: "(real \<times> nat) list"
    by (induction zs) auto
  then show ?thesis by (simp only: mk_items_def map_fst_zip length_upt diff_zero)
qed

lemma wPlus_spec:
  assumes "ties_transitive (map abs nz)"
  shows "wPlus_of (assign_ranks 1 (sort_key it_val (mk_items nz))) = spec_wPlus nz"
proof -
  define items where "items = mk_items nz"
  define srt where "srt = sort_key it_val items"
  have ms: "mset (map it_val srt) = mset (map abs nz)"
    unfolding srt_def items_def by (simp only: mset_map mset_sort mk_items_vals [symmetric])
  have se: "set (map it_val srt) = set (map abs nz)" using ms by (rule mset_eq_setD)
  have tt: "ties_transitive (map it_val srt)"
    unfolding ties_transitive_set [OF se] by (rule assms)
  have so: "sorted (map it_val srt)" unfolding srt_def by (rule sorted_sort_key)
  have mr: "spec_midrank (map it_val srt) v = spec_midrank (map abs nz) v" for v
    by (rule spec_midrank_perm [OF ms])
  have ranked: "assign_ranks 1 srt = map (\<lambda>x. (x, spec_midrank (map abs nz) (it_val x))) srt"
    by (simp add: assign_ranks_midrank [OF so tt] mr)
  have "wPlus_of (assign_ranks 1 srt)
      = (\<Sum>x\<leftarrow>filter (\<lambda>x. it_sign x > 0) srt. spec_midrank (map abs nz) (it_val x))"
    unfolding wPlus_of_sum ranked by (simp add: filter_map comp_def)
  also have "\<dots> = (\<Sum>x\<leftarrow>filter (\<lambda>x. it_sign x > 0) items. spec_midrank (map abs nz) (it_val x))"
    by (rule perm_sum_list) (simp only: srt_def mset_filter mset_sort)
  also have "\<dots> = spec_wPlus nz"
    unfolding items_def spec_wPlus_def by (rule sum_positive_items)
  finally show ?thesis unfolding srt_def items_def .
qed

lemma overflow_bound_large: "2 ^ 970 < overflow_bound"
proof -
  have "(2 :: real) ^ 1024 = 2 ^ 970 * 2 ^ 54" by (simp add: power_add [symmetric])
  moreover have "(2 :: real) * 2 ^ 970 < 2 ^ 970 * 2 ^ 54" by simp
  ultimately show ?thesis by (simp add: overflow_bound_def)
qed

lemma small_no_overflow:
  assumes "list_all (\<lambda>(x, y). \<bar>x - y\<bar> \<le> 2 ^ 970) (zip a b)"
  shows "no_overflow a b"
  using assms overflow_bound_large
  by (auto simp: no_overflow_def list_all_iff intro: le_less_trans)

text \<open>
  C8. For series \<open>a\<close> and \<open>b\<close> of the same length whose differences do not
  overflow: the differences kept are those with \<open>\<bar>d\<bar> > 1e-10\<close> and \<open>n\<close> is their
  number; when none is kept the result is \<open>{W = 0, z = 0, p = 1, n = 0}\<close>; \<open>W+\<close> is
  the sum of the midranks of the positive differences, as the specification words them
  (\<open>spec_wPlus\<close>), whenever the tied values form separate groups; and when every kept
  difference is positive, \<open>W+\<close> is the sum of all ranks, \<open>n (n + 1) / 2\<close>. For
  \<open>a = [10, 12, 14, 9, 11]\<close> and \<open>b = [9, 11, 10, 8, 9]\<close>, \<open>W+ = 15\<close>; the
  differences \<open>[2, -1]\<close> give \<open>W+ = 2\<close> and \<open>[1, -1, 2]\<close> give \<open>W+ = 1.5 + 3\<close>.
\<close>

theorem C8_wilcoxon_ranks:
  "(length a = length b \<and> no_overflow a b \<longrightarrow>
      (let nz = filter (\<lambda>d. \<bar>d\<bar> > 1 / 10 ^ 10) (map2 (-) a b) in
         w_n (wilcoxonSignedRank a b) = length nz
       \<and> (nz = [] \<longrightarrow>
            wilcoxonSignedRank a b = \<lparr> w_W = Fin 0, w_z = Fin 0, w_p = Fin 1, w_n = 0 \<rparr>)
       \<and> (ties_transitive (map abs nz) \<longrightarrow>
            w_W (wilcoxonSignedRank a b) = Fin (spec_wPlus nz))
       \<and> ((\<forall>d \<in> set nz. d > 0) \<longrightarrow>
            w_W (wilcoxonSignedRank a b) = Fin (real (length nz) * (real (length nz) + 1) / 2))))
   \<and> w_W (wilcoxonSignedRank [10, 12, 14, 9, 11] [9, 11, 10, 8, 9]) = Fin 15
   \<and> w_W (wilcoxonSignedRank [2, 0] [0, 1]) = Fin 2
   \<and> w_W (wilcoxonSignedRank [1, 0, 2] [0, 1, 0]) = Fin 4.5"
proof -
  have ex1: "w_W (wilcoxonSignedRank [10, 12, 14, 9, 11] [9, 11, 10, 8, 9]) = Fin 15"
    by (simp add: wilcoxonSignedRank_def diffs_def nonZero_def List.map_filter_def eps_def
        mk_items_def Let_def upt_rec tie_run_def wPlus_of_def)
  have ex2: "w_W (wilcoxonSignedRank [1, 0, 2] [0, 1, 0]) = Fin 4.5"
    by (simp add: wilcoxonSignedRank_def diffs_def nonZero_def List.map_filter_def eps_def
        mk_items_def Let_def upt_rec tie_run_def wPlus_of_def)
  have ex3: "w_W (wilcoxonSignedRank [2, 0] [0, 1]) = Fin 2"
    by (simp add: wilcoxonSignedRank_def diffs_def nonZero_def List.map_filter_def eps_def
        mk_items_def Let_def upt_rec tie_run_def wPlus_of_def)
  have gen: "w_n (wilcoxonSignedRank a b) = length nz
       \<and> (nz = [] \<longrightarrow>
            wilcoxonSignedRank a b = \<lparr> w_W = Fin 0, w_z = Fin 0, w_p = Fin 1, w_n = 0 \<rparr>)
       \<and> (ties_transitive (map abs nz) \<longrightarrow>
            w_W (wilcoxonSignedRank a b) = Fin (spec_wPlus nz))
       \<and> ((\<forall>d \<in> set nz. d > 0) \<longrightarrow>
            w_W (wilcoxonSignedRank a b) = Fin (real (length nz) * (real (length nz) + 1) / 2))"
    if eq: "length a = length b" and nz: "nz = filter (\<lambda>d. \<bar>d\<bar> > 1 / 10 ^ 10) (map2 (-) a b)" for nz
  proof -
    have nzd: "nonZero (diffs a b) = nz"
      unfolding diffs_same_length [OF eq] nonZero_Fin nz ..
    have sp: "w_W (wilcoxonSignedRank a b) = Fin (spec_wPlus nz)" if "ties_transitive (map abs nz)"
    proof (cases "nz = []")
      case True
      then show ?thesis by (simp add: wilcoxonSignedRank_def nzd spec_wPlus_def)
    next
      case False
      then show ?thesis
        using wPlus_spec [OF that] by (simp add: wilcoxonSignedRank_def nzd Let_def)
    qed
    have rest: "w_n (wilcoxonSignedRank a b) = length nz
       \<and> (nz = [] \<longrightarrow>
            wilcoxonSignedRank a b = \<lparr> w_W = Fin 0, w_z = Fin 0, w_p = Fin 1, w_n = 0 \<rparr>)
       \<and> ((\<forall>d \<in> set nz. d > 0) \<longrightarrow>
            w_W (wilcoxonSignedRank a b) = Fin (real (length nz) * (real (length nz) + 1) / 2))"
      using wPlus_all_positive [of nz]
      by (auto simp add: wilcoxonSignedRank_def nzd Let_def)
    from sp rest show ?thesis by blast
  qed
  from gen ex1 ex2 ex3 show ?thesis by (simp add: Let_def)
qed

theorem C8_wilcoxon_ranks_witness:
  "length [10, 12, 14, 9, 11 :: real] = length [9, 11, 10, 8, 9 :: real]
   \<and> filter (\<lambda>d. \<bar>d\<bar> > 1 / 10 ^ 10) (map2 (-) [10, 12, 14, 9, 11] [9, 11, 10, 8, 9 :: real])
        = [1, 1, 4, 1, 2]
   \<and> w_n (wilcoxonSignedRank [10, 12, 14, 9, 11] [9, 11, 10, 8, 9]) = 5
   \<and> w_W (wilcoxonSignedRank [10, 12, 14, 9, 11] [9, 11, 10, 8, 9]) = Fin (spec_wPlus [1, 1, 4, 1, 2])
   \<and> spec_wPlus [1, 1, 4, 1, 2] = 15
   \<and> w_W (wilcoxonSignedRank [10, 12, 14, 9, 11] [9, 11, 10, 8, 9]) = Fin (5 * (5 + 1) / 2)
   \<and> length [3, 7 :: real] = length [3, 7 :: real]
   \<and> filter (\<lambda>d. \<bar>d\<bar> > 1 / 10 ^ 10) (map2 (-) [3, 7] [3, 7 :: real]) = []
   \<and> wilcoxonSignedRank [3, 7] [3, 7] = \<lparr> w_W = Fin 0, w_z = Fin 0, w_p = Fin 1, w_n = 0 \<rparr>
   \<and> w_W (wilcoxonSignedRank [1, 0, 2] [0, 1, 0]) = Fin (spec_wPlus [1, - 1, 2])
   \<and> spec_wPlus [1, - 1, 2] = 4.5"
proof -
  have no1: "no_overflow [10, 12, 14, 9, 11] [9, 11, 10, 8, 9]"
    and no2: "no_overflow [3, 7] [3, 7]" and no3: "no_overflow [1, 0, 2] [0, 1, 0]"
    by (rule small_no_overflow, simp)+
  have t1: "ties_transitive (map abs [1, 1, 4, 1, 2])"
    and t3: "ties_transitive (map abs [1, - 1, 2])"
    by (simp_all add: ties_transitive_def tied_def eps_def)
  have s1: "spec_wPlus [1, 1, 4, 1, 2] = 15" and s3: "spec_wPlus [1, - 1, 2] = 4.5"
    by (simp_all add: spec_wPlus_def spec_midrank_def tied_def eps_def)
  have f1: "filter (\<lambda>d. \<bar>d\<bar> > 1 / 10 ^ 10) (map2 (-) [10, 12, 14, 9, 11] [9, 11, 10, 8, 9 :: real])
        = [1, 1, 4, 1, 2]"
    and f2: "filter (\<lambda>d. \<bar>d\<bar> > 1 / 10 ^ 10) (map2 (-) [3, 7] [3, 7 :: real]) = []"
    and f3: "filter (\<lambda>d. \<bar>d\<bar> > 1 / 10 ^ 10) (map2 (-) [1, 0, 2] [0, 1, 0 :: real]) = [1, - 1, 2]"
    by simp_all
  note A = C8_wilcoxon_ranks [of "[10, 12, 14, 9, 11]" "[9, 11, 10, 8, 9]", unfolded Let_def f1]
  note B = C8_wilcoxon_ranks [of "[3, 7]" "[3, 7]", unfolded Let_def f2]
  note C = C8_wilcoxon_ranks [of "[1, 0, 2]" "[0, 1, 0]", unfolded Let_def f3]
  from A no1 t1 s1 have a: "w_n (wilcoxonSignedRank [10, 12, 14, 9, 11] [9, 11, 10, 8, 9]) = 5"
    "w_W (wilcoxonSignedRank [10, 12, 14, 9, 11] [9, 11, 10, 8, 9]) = Fin (spec_wPlus [1, 1, 4, 1, 2])"
    "w_W (wilcoxonSignedRank [10, 12, 14, 9, 11] [9, 11, 10, 8, 9]) = Fin (5 * (5 + 1) / 2)"
    by simp_all
  from B no2 have b: "wilcoxonSignedRank [3, 7] [3, 7] = \<lparr> w_W = Fin 0, w_z = Fin 0, w_p = Fin 1, w_n = 0 \<rparr>"
    by simp
  from C no3 t3 s3 have c: "w_W (wilcoxonSignedRank [1, 0, 2] [0, 1, 0]) = Fin (spec_wPlus [1, - 1, 2])"
    by simp
  from a b c s1 s3 f1 f2 show ?thesis by simp
qed

section \<open>Two-tailed p-values\<close>

text \<open>
  The p-value of the paired t-test is a function of its statistic \<open>t\<close> and of the number of
  pairs; the statistic is \<open>NaN\<close> when there are fewer than two pairs and when the two series
  are the same.
\<close>

lemma length_paired: "length (paired a b) = length a"
  by (induction a b rule: paired.induct) simp_all

lemma length_diffs: "length (diffs a b) = length a"
  by (simp add: diffs_def length_paired)

lemma normalCDF_NaN: "normalCDF NaN = NaN"
  by (simp add: normalCDF_def cdf_poly_def Let_def)

lemma ttest_p_of_t:
  "tt_p (pairedTTest a b) =
     nmul (Fin 2) (nsub (Fin 1) (normalCDF (nmul (nabs (tt_t (pairedTTest a b)))
       (nsqrt (ndiv (Fin (real (length a))) (Fin (real (length a) - 1)))))))"
  by (simp add: pairedTTest_def Let_def length_diffs)

lemma ttest_t_NaN_p: "tt_t (pairedTTest a b) = NaN \<Longrightarrow> tt_p (pairedTTest a b) = NaN"
  by (simp add: ttest_p_of_t normalCDF_NaN nsub_def)

lemma ttest_short:
  assumes "length a \<le> 1"
  shows "tt_t (pairedTTest a b) = NaN"
proof (cases a)
  case Nil
  then show ?thesis
    by (simp add: pairedTTest_def Let_def diffs_def mean_def reduce_sum_def)
next
  case (Cons x xs)
  with assms have a: "a = [x]" by simp
  show ?thesis
  proof (cases b)
    case Nil
    then show ?thesis
      by (simp add: a pairedTTest_def Let_def diffs_def mean_def reduce_sum_def sq_dev_def
          npow2_def nsub_def)
  next
    case (Cons y ys)
    then show ?thesis
      by (simp add: a pairedTTest_def Let_def diffs_def mean_def reduce_sum_def sq_dev_def
          npow2_def nsub_def)
  qed
qed

lemma ttest_p_range:
  assumes "tt_t (pairedTTest a b) \<noteq> NaN"
  shows "\<exists>q. tt_p (pairedTTest a b) = Fin q \<and> 0 \<le> q \<and> q \<le> 1"
proof -
  define n where "n = real (length a)"
  define k where "k = sqrt (n / (n - 1))"
  from assms ttest_short [of a b] have "2 \<le> length a" by (cases "length a \<le> 1") auto
  then have n1: "0 < n - 1" and n0: "0 < n" by (auto simp: n_def)
  have kpos: "0 < k" unfolding k_def using n0 n1 by simp
  have k: "nsqrt (ndiv (Fin n) (Fin (n - 1))) = Fin k"
    unfolding k_def using n0 n1 by (intro nsqrt_ndiv_Fin) simp_all
  have p: "tt_p (pairedTTest a b) =
     nmul (Fin 2) (nsub (Fin 1) (normalCDF (nmul (nabs (tt_t (pairedTTest a b))) (Fin k))))"
    unfolding k [symmetric] n_def by (rule ttest_p_of_t)
  show ?thesis
  proof (cases "tt_t (pairedTTest a b)")
    case (Fin v)
    then have "tt_p (pairedTTest a b)
        = nmul (Fin 2) (nsub (Fin 1) (normalCDF (Fin \<bar>\<bar>v\<bar> * k\<bar>)))"
      using kpos by (simp add: p abs_mult)
    with two_tailed_Fin [of "\<bar>v\<bar> * k"] show ?thesis by simp
  next
    case PInf
    then have "tt_p (pairedTTest a b) = Fin 0"
      using kpos by (simp add: p normalCDF_PInf nsub_def)
    then show ?thesis by simp
  next
    case NInf
    then have "tt_p (pairedTTest a b) = Fin 0"
      using kpos by (simp add: p normalCDF_PInf nsub_def)
    then show ?thesis by simp
  next
    case NaN
    with assms show ?thesis by simp
  qed
qed

lemma ttest_same: "tt_t (pairedTTest a a) = NaN"
proof (cases "length a \<le> 1")
  case True
  then show ?thesis by (rule ttest_short)
next
  case False
  define n where "n = real (length a)"
  from False have n1: "0 < n - 1" and n0: "0 < n" by (auto simp: n_def)
  have ne: "replicate (length a) (0 :: real) \<noteq> []" using False by auto
  have "map2 (-) a a = replicate (length a) 0"
    by (induction a) simp_all
  then have ds: "diffs a a = map Fin (replicate (length a) 0)"
    by (simp add: diffs_same_length)
  have mean: "mean (map Fin (replicate (length a) 0)) = Fin 0"
    unfolding mean_Fin [OF ne] by (simp add: sum_list_replicate)
  have dev: "sq_dev (map Fin (replicate (length a) 0)) (Fin 0) = Fin 0"
    unfolding sq_dev_Fin by (simp add: sum_list_replicate)
  show ?thesis
    unfolding pairedTTest_def Let_def ds mean dev
    using n0 n1 by (simp add: n_def)
qed

text \<open>
  C10 (as the code has it). On every finite argument \<open>normalCDF\<close> returns a number between
  0 and 1; it returns 1 at \<open>Infinity\<close>, 0 at \<open>-Infinity\<close> and \<open>NaN\<close> at \<open>NaN\<close>. The two-tailed
  p-value of the paired t-test lies between 0 and 1 whenever the statistic \<open>t\<close> of the test is
  a number or an infinity, and it is \<open>NaN\<close> whenever \<open>t\<close> is \<open>NaN\<close>; this is the case when both
  series are the same, whatever their length, since then \<open>t\<close> is \<open>0 / 0\<close>. The two-tailed p-value
  of the Wilcoxon signed-rank test lies between 0 and 1 for all series whose paired differences
  do not overflow.
\<close>

theorem C10_p_value_range:
  "(\<exists>c. normalCDF (Fin x) = Fin c \<and> 0 \<le> c \<and> c \<le> 1)
   \<and> normalCDF PInf = Fin 1 \<and> normalCDF NInf = Fin 0 \<and> normalCDF NaN = NaN
   \<and> (tt_t (pairedTTest a b) \<noteq> NaN \<longrightarrow>
        (\<exists>q. tt_p (pairedTTest a b) = Fin q \<and> 0 \<le> q \<and> q \<le> 1))
   \<and> (tt_t (pairedTTest a b) = NaN \<longrightarrow> tt_p (pairedTTest a b) = NaN)
   \<and> tt_t (pairedTTest a a) = NaN \<and> tt_p (pairedTTest a a) = NaN
   \<and> (no_overflow a b \<longrightarrow>
        (\<exists>q. w_p (wilcoxonSignedRank a b) = Fin q \<and> 0 \<le> q \<and> q \<le> 1))"
  using normalCDF_range [of x] normalCDF_PInf normalCDF_NInf normalCDF_NaN
    ttest_p_range [of a b] ttest_t_NaN_p [of a b] ttest_same [of a]
    ttest_t_NaN_p [OF ttest_same [of a]] wilcoxon_p_range [of a b]
  by blast

text \<open>
  C10, at two inputs: the series \<open>[3, 1]\<close> against \<open>[0, 0]\<close>, where \<open>t = 2\<close> and both p-values
  lie between 0 and 1, and the series \<open>[1, 2]\<close> against itself, where \<open>t\<close> and the p-value of the
  t-test are \<open>NaN\<close>.
\<close>

theorem C10_p_value_range_witness:
  "tt_t (pairedTTest [3, 1] [0, 0]) = Fin 2
   \<and> (\<exists>q. tt_p (pairedTTest [3, 1] [0, 0]) = Fin q \<and> 0 \<le> q \<and> q \<le> 1)
   \<and> tt_t (pairedTTest [1, 2] [1, 2]) = NaN
   \<and> tt_p (pairedTTest [1, 2] [1, 2]) = NaN
   \<and> no_overflow [3, 1] [0, 0]
   \<and> (\<exists>q. w_p (wilcoxonSignedRank [3, 1] [0, 0]) = Fin q \<and> 0 \<le> q \<and> q \<le> 1)"
proof -
  have t1: "tt_t (pairedTTest [3, 1] [0, 0]) = Fin 2"
    by (simp add: pairedTTest_def diffs_def mean_def reduce_sum_def sq_dev_def npow2_def
        nsub_def Let_def)
  have t2: "tt_t (pairedTTest [1, 2] [1, 2]) = NaN"
    by (simp add: pairedTTest_def diffs_def mean_def reduce_sum_def sq_dev_def npow2_def
        nsub_def Let_def)
  have no: "no_overflow [3, 1] [0, 0]"
    by (rule small_no_overflow, simp)
  note A = C10_p_value_range [of 0 "[3, 1]" "[0, 0]"]
  note B = C10_p_value_range [of 0 "[1, 2]" "[1, 2]"]
  from A t1 have p1: "\<exists>q. tt_p (pairedTTest [3, 1] [0, 0]) = Fin q \<and> 0 \<le> q \<and> q \<le> 1"
    by simp
  from A no have w1: "\<exists>q. w_p (wilcoxonSignedRank [3, 1] [0, 0]) = Fin q \<and> 0 \<le> q \<and> q \<le> 1"
    by blast
  from B t2 have p2: "tt_p (pairedTTest [1, 2] [1, 2]) = NaN"
    by blast
  from t1 p1 t2 p2 no w1 show ?thesis by blast
qed

text \<open>
  C10 (as the specification states it) fails: the p-value of the paired t-test is said to lie
  always between 0 and 1. For the two equal series \<open>[1, 2]\<close> every difference is 0, the
  standard deviation of the differences is 0, the statistic is \<open>0 / 0\<close>, and the p-value is
  \<open>NaN\<close>.
\<close>

theorem C10_counterexample:
  "tt_t (pairedTTest [1, 2] [1, 2]) = NaN \<and> tt_p (pairedTTest [1, 2] [1, 2]) = NaN"
  by (simp add: pairedTTest_def diffs_def mean_def reduce_sum_def sq_dev_def npow2_def nsub_def
      normalCDF_def cdf_poly_def Let_def)

end
